theory Spec2Isabelle
  imports Main
begin

section \<open>MueLu::BlockedGaussSeidelSmoother: data model\<close>

text \<open>
  The embedding follows \<^verbatim>\<open>MueLu_BlockedGaussSeidelSmoother_def.hpp\<close>. The class is a
  template over \<^verbatim>\<open>Scalar\<close>; scalars are a type variable of sort \<open>comm_ring_1\<close>
  (exact arithmetic; rounding is not modelled). \<^verbatim>\<open>LocalOrdinal\<close> (the sweep counter)
  and the \<^verbatim>\<open>int pos\<close> of \<^verbatim>\<open>AddFactoryManager\<close> are \<open>int\<close>: no arithmetic that
  could overflow is done on them apart from \<^verbatim>\<open>++run\<close> below the sweep count.
  A trailing underscore is not a legal Isabelle name, so the member \<^verbatim>\<open>FactManager_\<close> is
  the field \<open>FactManager'\<close>, and likewise for the other members.
\<close>

subsection \<open>Exceptions and warnings\<close>

text \<open>
  \<open>RuntimeError\<close> is \<^verbatim>\<open>MueLu::Exceptions::RuntimeError\<close>, \<open>BadCast\<close> is
  \<^verbatim>\<open>MueLu::Exceptions::BadCast\<close>. The other four are raised inside collaborators
  whose code is not in this file: \<open>DependencyNotReady\<close> by \<^verbatim>\<open>Level::Get\<close> when the
  requested data is not on the level, \<open>IncompatibleMaps\<close> by the Xpetra vector and
  map-extractor operations on operands of different shapes, \<open>NullDereference\<close> for the
  use of a null \<^verbatim>\<open>RCP\<close>, \<open>OutOfRange\<close> by \<^verbatim>\<open>std::vector::at\<close>.
\<close>

datatype error =
  RuntimeError | BadCast | DependencyNotReady | IncompatibleMaps | NullDereference | OutOfRange

datatype warning = SetupAlreadyCalled | CannotAddAtProperPosition int

text \<open>The outcome of a member function that mutates the object: the exception thrown
  (if any), the object as the call leaves it, and the warnings written to the streams.\<close>

record 's outcome =
  thrown :: "error option"
  state :: 's
  warnings :: "warning list"

subsection \<open>Block partition descriptors, vectors, operators\<close>

text \<open>
  Modelled from the spec: the Block Partition Descriptor (\<^verbatim>\<open>Xpetra::BlockedMap\<close>,
  wrapped by \<^verbatim>\<open>Xpetra::MapExtractor\<close>), whose code is not in this file. Block \<open>r\<close> of
  the descriptor lists the positions of the flat index space that belong to block \<open>r\<close>;
  the extraction mode (Thyra mode) only relabels indices and is carried as a flag.
\<close>

record BlockedMap =
  maps :: "nat list list"
  getThyraMode :: bool

definition NumMaps :: "BlockedMap \<Rightarrow> nat" where
  "NumMaps bm = length (maps bm)"

definition fullSize :: "BlockedMap \<Rightarrow> nat" where
  "fullSize bm = length (concat (maps bm))"

text \<open>A \<^verbatim>\<open>MultiVector\<close> is either flat or a \<^verbatim>\<open>BlockedMultiVector\<close> (what
  \<^verbatim>\<open>rcp_dynamic_cast<BlockedMultiVector>\<close> tests); a sub-vector is the list of its entries.\<close>

datatype 'a MultiVector =
    MultiVector "'a list"
  | BlockedMultiVector BlockedMap "'a list list"

text \<open>Modelled from the spec: the Reordering Plan (\<^verbatim>\<open>Xpetra::BlockReorderManager\<close>).
  Entry \<open>i\<close> lists, in tree order, the native blocks grouped into block \<open>i\<close> of the
  reordered operator. \<open>nativeDomainMap\<close> and \<open>nativeRangeMap\<close> are the blocked maps of
  \<^verbatim>\<open>rbA->getBlockedCrsMatrix()\<close>.\<close>

record ReorderedBlockedCrsMatrix =
  getBlockReorderManager :: "nat list list"
  nativeDomainMap :: BlockedMap
  nativeRangeMap :: BlockedMap

text \<open>A \<^verbatim>\<open>BlockedCrsMatrix\<close>: \<open>getMatrix r c\<close> is the block \<open>A[r][c]\<close> as the linear map
  of its \<^verbatim>\<open>apply\<close> (\<open>None\<close> for a null block); \<open>asReordered\<close> is the result of
  \<^verbatim>\<open>rcp_dynamic_cast<ReorderedBlockedCrsMatrix>\<close>.\<close>

record 'a BlockedCrsMatrix =
  Rows :: nat
  Cols :: nat
  getMatrix :: "nat \<Rightarrow> nat \<Rightarrow> ('a list \<Rightarrow> 'a list) option"
  getRangeMapExtractor :: BlockedMap
  getDomainMapExtractor :: BlockedMap
  asReordered :: "ReorderedBlockedCrsMatrix option"

datatype 'a Matrix =
    CrsMatrixWrap "'a list \<Rightarrow> 'a list"
  | BlockedCrs "'a BlockedCrsMatrix"

text \<open>\<^verbatim>\<open>SmootherBase::Apply(X, B, InitialGuessIsZero)\<close> of a sub-smoother: the entries
  of \<open>X\<close> after the call, from the entries of \<open>X\<close> before it, \<open>B\<close> and the flag.\<close>

type_synonym 'a SmootherBase = "'a list \<Rightarrow> 'a list \<Rightarrow> bool \<Rightarrow> 'a list"

text \<open>What \<^verbatim>\<open>Setup\<close> reads from the \<^verbatim>\<open>Level\<close>: the operator \<^verbatim>\<open>"A"\<close> of this factory and,
  under each sub-factory manager, the \<^verbatim>\<open>"PreSmoother"\<close> and the sub-block \<^verbatim>\<open>"A"\<close>.
  \<open>None\<close> stands for data the level does not hold (\<^verbatim>\<open>Level::Get\<close> throws).\<close>

record ('a, 'fm) Level =
  Get_A :: "'a Matrix option"
  Get_PreSmoother :: "'fm \<Rightarrow> 'a SmootherBase option"
  Get_sub_A :: "'fm \<Rightarrow> 'a Matrix option"

subsection \<open>The smoother object\<close>

record ('a, 'fm) BlockedGaussSeidelSmoother =
  type' :: string
  FactManager' :: "'fm list"
  Inverse' :: "'a SmootherBase list"
  bIsBlockedOperator' :: "bool list"
  A' :: "'a Matrix option"
  rangeMapExtractor' :: "BlockedMap option"
  domainMapExtractor' :: "BlockedMap option"
  IsSetup :: bool
  Sweeps :: int
  Damping_factor :: 'a

text \<open>The constructor, with the defaults of \<^verbatim>\<open>GetValidParameterList\<close>.\<close>

definition new_BlockedGaussSeidelSmoother :: "('a::comm_ring_1, 'fm) BlockedGaussSeidelSmoother" where
  "new_BlockedGaussSeidelSmoother =
     \<lparr>type' = ''blocked GaussSeidel'', FactManager' = [], Inverse' = [],
      bIsBlockedOperator' = [], A' = None, rangeMapExtractor' = None,
      domainMapExtractor' = None, IsSetup = False, Sweeps = 1, Damping_factor = 1\<rparr>"

section \<open>Registration, Setup, Copy\<close>

definition AddFactoryManager ::
  "('a, 'fm) BlockedGaussSeidelSmoother \<Rightarrow> 'fm \<Rightarrow> int \<Rightarrow>
   ('a, 'fm) BlockedGaussSeidelSmoother outcome" where
  "AddFactoryManager s fm pos =
     (if pos < 0 then \<lparr>thrown = Some RuntimeError, state = s, warnings = []\<rparr>
      else
        let myPos = nat pos in
        if myPos < length (FactManager' s) then
          \<lparr>thrown = None, state = s\<lparr>FactManager' := (FactManager' s)[myPos := fm]\<rparr>,
           warnings = []\<rparr>
        else if myPos = length (FactManager' s) then
          \<lparr>thrown = None, state = s\<lparr>FactManager' := FactManager' s @ [fm]\<rparr>,
           warnings = []\<rparr>
        else
          \<lparr>thrown = None, state = s\<lparr>FactManager' := FactManager' s @ [fm]\<rparr>,
           warnings = [CannotAddAtProperPosition pos]\<rparr>)"

definition is_BlockedCrsMatrix :: "'a Matrix \<Rightarrow> bool" where
  "is_BlockedCrsMatrix M = (case M of CrsMatrixWrap _ \<Rightarrow> False | BlockedCrs _ \<Rightarrow> True)"

text \<open>The loop of \<^verbatim>\<open>Setup\<close> over \<^verbatim>\<open>FactManager_\<close> (lines 116-126): each round pushes the
  smoother of the block row onto \<^verbatim>\<open>Inverse_\<close> and the blockedness of its operator onto
  \<^verbatim>\<open>bIsBlockedOperator_\<close>; a failing \<^verbatim>\<open>Level::Get\<close> leaves the loop with what was pushed.\<close>

fun Setup_loop ::
  "('a, 'fm) Level \<Rightarrow> 'fm list \<Rightarrow> ('a, 'fm) BlockedGaussSeidelSmoother \<Rightarrow>
   error option \<times> ('a, 'fm) BlockedGaussSeidelSmoother" where
  "Setup_loop currentLevel [] s = (None, s)"
| "Setup_loop currentLevel (it # its) s =
     (case Get_PreSmoother currentLevel it of
        None \<Rightarrow> (Some DependencyNotReady, s)
      | Some Smoo \<Rightarrow>
          let s1 = s\<lparr>Inverse' := Inverse' s @ [Smoo]\<rparr> in
          (case Get_sub_A currentLevel it of
             None \<Rightarrow> (Some DependencyNotReady, s1)
           | Some Aii \<Rightarrow>
               Setup_loop currentLevel its
                 (s1\<lparr>bIsBlockedOperator' :=
                       bIsBlockedOperator' s1 @ [is_BlockedCrsMatrix Aii]\<rparr>)))"

definition Setup ::
  "('a, 'fm) BlockedGaussSeidelSmoother \<Rightarrow> ('a, 'fm) Level \<Rightarrow>
   ('a, 'fm) BlockedGaussSeidelSmoother outcome" where
  "Setup s currentLevel =
     (let w = (if IsSetup s then [SetupAlreadyCalled] else []) in
      case Get_A currentLevel of
        None \<Rightarrow> \<lparr>thrown = Some DependencyNotReady, state = s, warnings = w\<rparr>
      | Some M \<Rightarrow>
          let s1 = s\<lparr>A' := Some M\<rparr> in
          (case M of
             CrsMatrixWrap _ \<Rightarrow> \<lparr>thrown = Some BadCast, state = s1, warnings = w\<rparr>
           | BlockedCrs bA \<Rightarrow>
               if Rows bA \<noteq> length (FactManager' s1) then
                 \<lparr>thrown = Some RuntimeError, state = s1, warnings = w\<rparr>
               else if Cols bA \<noteq> length (FactManager' s1) then
                 \<lparr>thrown = Some RuntimeError, state = s1, warnings = w\<rparr>
               else
                 let s2 = s1\<lparr>rangeMapExtractor' := Some (getRangeMapExtractor bA),
                             domainMapExtractor' := Some (getDomainMapExtractor bA)\<rparr> in
                 (case Setup_loop currentLevel (FactManager' s2) s2 of
                    (Some e, s3) \<Rightarrow> \<lparr>thrown = Some e, state = s3, warnings = w\<rparr>
                  | (None, s3) \<Rightarrow>
                      \<lparr>thrown = None, state = s3\<lparr>IsSetup := True\<rparr>, warnings = w\<rparr>)))"

text \<open>\<^verbatim>\<open>Copy\<close> is \<^verbatim>\<open>rcp(new BlockedGaussSeidelSmoother(*this))\<close>. The file defines the
  default constructor and the destructor and no copy constructor, so the copy is the
  compiler-generated memberwise one: every member is copied as it is.\<close>

definition Copy ::
  "('a, 'fm) BlockedGaussSeidelSmoother \<Rightarrow> ('a, 'fm) BlockedGaussSeidelSmoother" where
  "Copy this =
     \<lparr>type' = type' this, FactManager' = FactManager' this, Inverse' = Inverse' this,
      bIsBlockedOperator' = bIsBlockedOperator' this, A' = A' this,
      rangeMapExtractor' = rangeMapExtractor' this,
      domainMapExtractor' = domainMapExtractor' this, IsSetup = IsSetup this,
      Sweeps = Sweeps this, Damping_factor = Damping_factor this\<rparr>"

section \<open>Vector and operator primitives\<close>

text \<open>Sequencing of calls that may throw: the first exception ends the computation.\<close>

definition andThen :: "error + 'a \<Rightarrow> ('a \<Rightarrow> error + 'b) \<Rightarrow> error + 'b" where
  "andThen m f = (case m of Inl e \<Rightarrow> Inl e | Inr x \<Rightarrow> f x)"

text \<open>
  Modelled from the spec: the linear-algebra primitives of the external interfaces
  (\<^verbatim>\<open>Xpetra::MultiVector\<close>, \<^verbatim>\<open>Xpetra::MapExtractor\<close>, \<^verbatim>\<open>Xpetra::BlockedCrsMatrix\<close>), whose
  code is not in this file. An operation on operands of different shapes throws.
  \<^verbatim>\<open>this->update(alpha, A, beta)\<close> is \<open>this = alpha * A + beta * this\<close>,
  \<^verbatim>\<open>putScalar(c)\<close> sets every entry to \<open>c\<close>, \<^verbatim>\<open>MultiVectorFactory::Build\<close> gives a
  zero vector on the map of its argument.
\<close>

definition update :: "'a::comm_ring_1 \<Rightarrow> 'a list \<Rightarrow> 'a \<Rightarrow> 'a list \<Rightarrow> error + 'a list" where
  "update alpha A beta this =
     (if length A \<noteq> length this then Inl IncompatibleMaps
      else Inr (map2 (\<lambda>a t. alpha * a + beta * t) A this))"

definition update_blocked ::
  "'a::comm_ring_1 \<Rightarrow> 'a list list \<Rightarrow> 'a \<Rightarrow> 'a list list \<Rightarrow> error + 'a list list" where
  "update_blocked alpha A beta this =
     (if map length A \<noteq> map length this then Inl IncompatibleMaps
      else Inr (map2 (map2 (\<lambda>a t. alpha * a + beta * t)) A this))"

definition putScalar :: "'a \<Rightarrow> 'a list list \<Rightarrow> 'a list list" where
  "putScalar c bX = map (map (\<lambda>_. c)) bX"

definition Build :: "'a::comm_ring_1 list list \<Rightarrow> 'a list list" where
  "Build like = putScalar 0 like"

text \<open>Modelled from the spec: the operations of the Block Partition Descriptor provider,
  whose code is not in this file.
  \<^verbatim>\<open>MapExtractor::ExtractVector(full, block, thyra)\<close> on a blocked vector returns its
  sub-vector \<open>block\<close> (a view); \<^verbatim>\<open>getVector(block, n, thyra)\<close> a zero vector on the map of
  the block; \<^verbatim>\<open>InsertVector(part, block, full, thyra)\<close> stores \<open>part\<close> as sub-vector
  \<open>block\<close> of \<open>full\<close>.\<close>

definition ExtractVector :: "BlockedMap \<Rightarrow> 'a list list \<Rightarrow> nat \<Rightarrow> bool \<Rightarrow> error + 'a list" where
  "ExtractVector me full block bThyraMode =
     (if NumMaps me \<noteq> length full then Inl IncompatibleMaps
      else if block < length full then Inr (full ! block)
      else Inl IncompatibleMaps)"

definition getVector :: "BlockedMap \<Rightarrow> nat \<Rightarrow> bool \<Rightarrow> error + 'a::comm_ring_1 list" where
  "getVector me block bThyraMode =
     (if block < NumMaps me then Inr (replicate (length (maps me ! block)) 0)
      else Inl IncompatibleMaps)"

definition InsertVector ::
  "BlockedMap \<Rightarrow> 'a list \<Rightarrow> nat \<Rightarrow> 'a list list \<Rightarrow> bool \<Rightarrow> error + 'a list list" where
  "InsertVector me part block full bThyraMode =
     (if NumMaps me \<noteq> length full then Inl IncompatibleMaps
      else if block < length full then
        (if length part = length (full ! block) then Inr (full[block := part])
         else Inl IncompatibleMaps)
      else Inl IncompatibleMaps)"

text \<open>A counted loop \<^verbatim>\<open>for (size_t i = i0; i < n; i++) body\<close> over a state, and the
  sweep loop \<^verbatim>\<open>for (LocalOrdinal run = run0; run < nSweeps; ++run) body\<close>; an exception
  thrown by the body leaves the loop.\<close>

function for_rows ::
  "(nat \<Rightarrow> 'st \<Rightarrow> error + 'st) \<Rightarrow> nat \<Rightarrow> nat \<Rightarrow> 'st \<Rightarrow> error + 'st" where
  "for_rows body n i st =
     (if i < n then
        (case body i st of Inl e \<Rightarrow> Inl e | Inr st' \<Rightarrow> for_rows body n (i + 1) st')
      else Inr st)"
  by pat_completeness auto
termination
  by (relation "measure (\<lambda>(body, n, i, st). n - i)") auto

function for_sweeps ::
  "(int \<Rightarrow> 'st \<Rightarrow> error + 'st) \<Rightarrow> int \<Rightarrow> int \<Rightarrow> 'st \<Rightarrow> error + 'st" where
  "for_sweeps body nSweeps run st =
     (if run < nSweeps then
        (case body run st of Inl e \<Rightarrow> Inl e | Inr st' \<Rightarrow> for_sweeps body nSweeps (run + 1) st')
      else Inr st)"
  by pat_completeness auto
termination
  by (relation "measure (\<lambda>(body, nSweeps, run, st). nat (nSweeps - run))") auto

text \<open>
  Modelled from the spec: the Operator's row-contribution operation
  (\<^verbatim>\<open>BlockedCrsMatrix::bgs_apply(X, Y, row, NO_TRANS, alpha, beta)\<close>), whose code is not in
  this file: \<open>Y = beta * Y + alpha * T\<close>, where \<open>T\<close> is zero outside block \<open>row\<close> and its
  block \<open>row\<close> is the sum over the columns \<open>col\<close> with a non-null block of
  \<open>A[row][col] * X[col]\<close>.
\<close>

definition bgs_column ::
  "'a::comm_ring_1 BlockedCrsMatrix \<Rightarrow> 'a list list \<Rightarrow> nat \<Rightarrow> nat \<Rightarrow> 'a list \<Rightarrow> error + 'a list" where
  "bgs_column bA X row col Yblock =
     (case getMatrix bA row col of
        None \<Rightarrow> Inr Yblock
      | Some Ablock \<Rightarrow>
          andThen (ExtractVector (getDomainMapExtractor bA) X col
                     (getThyraMode (getDomainMapExtractor bA)))
            (\<lambda>Xblock. update 1 (Ablock Xblock) 1 Yblock))"

definition row_contribution ::
  "'a::comm_ring_1 BlockedCrsMatrix \<Rightarrow> 'a list list \<Rightarrow> nat \<Rightarrow> error + 'a list" where
  "row_contribution bA X row =
     (let rangemaps = getRangeMapExtractor bA in
      andThen (getVector rangemaps row (getThyraMode rangemaps))
        (\<lambda>Yblock. for_rows (bgs_column bA X row) (Cols bA) 0 Yblock))"

definition bgs_apply ::
  "'a::comm_ring_1 BlockedCrsMatrix \<Rightarrow> 'a list list \<Rightarrow> 'a list list \<Rightarrow> nat \<Rightarrow> 'a \<Rightarrow> 'a \<Rightarrow>
   error + 'a list list" where
  "bgs_apply bA X Y row alpha beta =
     (let rangemaps = getRangeMapExtractor bA; thyra = getThyraMode rangemaps in
      andThen (row_contribution bA X row)
        (\<lambda>Yblock. andThen (InsertVector rangemaps Yblock row (Build Y) thyra)
        (\<lambda>tmpY. update_blocked alpha tmpY beta Y)))"

text \<open>
  Modelled from the spec: wrapping a flat vector with a partition descriptor
  (\<^verbatim>\<open>new BlockedMultiVector(bmap, v)\<close>, which copies the entries of \<open>v\<close> into the blocks)
  and flattening (\<^verbatim>\<open>BlockedMultiVector::Merge\<close>), whose code is not in this file.
\<close>

definition new_BlockedMultiVector :: "BlockedMap \<Rightarrow> 'a list \<Rightarrow> error + 'a list list" where
  "new_BlockedMultiVector bmap v =
     (if length v \<noteq> fullSize bmap then Inl IncompatibleMaps
      else if list_all (\<lambda>g. g < length v) (concat (maps bmap))
      then Inr (map (map (nth v)) (maps bmap))
      else Inl IncompatibleMaps)"

definition Merge :: "BlockedMap \<Rightarrow> 'a::comm_ring_1 list list \<Rightarrow> 'a list" where
  "Merge bmap blocks =
     map (\<lambda>g. case map_of (concat (map2 zip (maps bmap) blocks)) g of
                 Some a \<Rightarrow> a | None \<Rightarrow> 0)
       [0..<fullSize bmap]"

text \<open>
  Modelled from the spec: re-partitioning by a Reordering Plan
  (\<^verbatim>\<open>buildReorderedBlockedMultiVector(brm, bvec)\<close>), whose code is not in this file: a pure
  re-labelling of sub-vector boundaries with no numeric change. Block \<open>i\<close> of the result
  is the native blocks of group \<open>i\<close>, one after the other. The result is a view: its
  sub-vectors are those of \<open>bvec\<close>, so what is written to the view is written to \<open>bvec\<close>;
  \<open>write_through\<close> is \<open>bvec\<close> as the written view leaves it.
\<close>

definition buildReorderedBlockedMultiVector ::
  "nat list list \<Rightarrow> 'a list list \<Rightarrow> error + 'a list list" where
  "buildReorderedBlockedMultiVector brm bvec =
     (if list_all (list_all (\<lambda>k. k < length bvec)) brm
      then Inr (map (\<lambda>g. concat (map (nth bvec) g)) brm)
      else Inl IncompatibleMaps)"

fun split_sizes :: "nat list \<Rightarrow> 'a list \<Rightarrow> 'a list list" where
  "split_sizes [] v = []"
| "split_sizes (n # ns) v = take n v # split_sizes ns (drop n v)"

definition write_through :: "nat list list \<Rightarrow> 'a list list \<Rightarrow> 'a list list \<Rightarrow> 'a list list" where
  "write_through brm bvec view =
     fold (\<lambda>(k, part) acc. acc[k := part])
       (concat (map2 (\<lambda>g whole. zip g (split_sizes (map (\<lambda>k. length (bvec ! k)) g) whole))
                  brm view))
       bvec"

section \<open>Apply\<close>

text \<open>Lines 251-253: the residual of block row \<open>i\<close> in sweep \<open>run\<close>. \<open>residual\<close> is the
  vector allocated once before the loops and overwritten in every round.\<close>

definition block_residual ::
  "'a::comm_ring_1 BlockedCrsMatrix \<Rightarrow> 'a list list \<Rightarrow> bool \<Rightarrow> int \<Rightarrow> nat \<Rightarrow>
   'a list list \<Rightarrow> 'a list list \<Rightarrow> error + 'a list list" where
  "block_residual bA rcpB InitialGuessIsZero run i rcpX residual =
     andThen (update_blocked 1 rcpB 0 residual)
       (\<lambda>residual.
          if InitialGuessIsZero = False \<or> i > 0 \<or> run > 0
          then bgs_apply bA rcpX residual i (- 1) 1
          else Inr residual)"

text \<open>Lines 256-266: extraction of the sub-vectors, the call of the sub-smoother of
  block row \<open>i\<close> and the damped update of block \<open>i\<close> of the solution, in place.\<close>

definition block_update ::
  "('a::comm_ring_1, 'fm) BlockedGaussSeidelSmoother \<Rightarrow> 'a \<Rightarrow> nat \<Rightarrow>
   'a list list \<Rightarrow> 'a list list \<Rightarrow> error + 'a list list" where
  "block_update this omega i rcpX residual =
     (case rangeMapExtractor' this of
        None \<Rightarrow> Inl NullDereference
      | Some rangeMapExtractor \<Rightarrow>
     (case domainMapExtractor' this of
        None \<Rightarrow> Inl NullDereference
      | Some domainMapExtractor \<Rightarrow>
          let bRangeThyraMode = getThyraMode rangeMapExtractor;
              bDomainThyraMode = getThyraMode domainMapExtractor
          in
          andThen (ExtractVector domainMapExtractor rcpX i bDomainThyraMode)
            (\<lambda>Xi. andThen (ExtractVector rangeMapExtractor residual i bRangeThyraMode)
            (\<lambda>ri. andThen (getVector domainMapExtractor i bDomainThyraMode)
            (\<lambda>tXi.
               if i < length (Inverse' this) then
                 andThen (update omega ((Inverse' this ! i) tXi ri False) 1 Xi)
                   (\<lambda>Xi. Inr (rcpX[i := Xi]))
               else Inl OutOfRange)))))"

text \<open>The body of the inner loop (lines 249-266) on the pair of the solution vector and
  the residual vector.\<close>

definition block_row ::
  "('a::comm_ring_1, 'fm) BlockedGaussSeidelSmoother \<Rightarrow> 'a BlockedCrsMatrix \<Rightarrow> 'a list list \<Rightarrow>
   bool \<Rightarrow> 'a \<Rightarrow> int \<Rightarrow> nat \<Rightarrow> 'a list list \<times> 'a list list \<Rightarrow>
   error + 'a list list \<times> 'a list list" where
  "block_row this bA rcpB InitialGuessIsZero omega run i st =
     (case st of (rcpX, residual) \<Rightarrow>
        andThen (block_residual bA rcpB InitialGuessIsZero run i rcpX residual)
          (\<lambda>residual. andThen (block_update this omega i rcpX residual)
          (\<lambda>rcpX. Inr (rcpX, residual))))"

text \<open>One sweep (lines 248-267) and the loop over the sweeps (lines 245-268).\<close>

definition sweep ::
  "('a::comm_ring_1, 'fm) BlockedGaussSeidelSmoother \<Rightarrow> 'a BlockedCrsMatrix \<Rightarrow> 'a list list \<Rightarrow>
   bool \<Rightarrow> 'a \<Rightarrow> int \<Rightarrow> 'a list list \<times> 'a list list \<Rightarrow>
   error + 'a list list \<times> 'a list list" where
  "sweep this bA rcpB InitialGuessIsZero omega run st =
     for_rows (block_row this bA rcpB InitialGuessIsZero omega run)
       (length (Inverse' this)) 0 st"

definition sweeps ::
  "('a::comm_ring_1, 'fm) BlockedGaussSeidelSmoother \<Rightarrow> 'a BlockedCrsMatrix \<Rightarrow> 'a list list \<Rightarrow>
   bool \<Rightarrow> 'a \<Rightarrow> int \<Rightarrow> 'a list list \<times> 'a list list \<Rightarrow>
   error + 'a list list \<times> 'a list list" where
  "sweeps this bA rcpB InitialGuessIsZero omega nSweeps st =
     for_sweeps (sweep this bA rcpB InitialGuessIsZero omega) nSweeps 0 st"

text \<open>Lines 160-228: both vectors are made blocked, and re-partitioned when the
  operator is a reordered one. \<open>bX\<close> with its map \<open>mapX\<close> is the blocked solution vector
  before the re-partitioning, \<open>rcpX\<close> and \<open>rcpB\<close> are the vectors the loops work on,
  \<open>viewX\<close> says that \<open>rcpX\<close> is a re-partitioned view of \<open>bX\<close>.\<close>

record 'a prepared =
  mapX :: BlockedMap
  bX :: "'a list list"
  rcpX :: "'a list list"
  rcpB :: "'a list list"
  bCopyResultX :: bool
  viewX :: bool

definition make_blocked ::
  "BlockedMap \<Rightarrow> 'a MultiVector \<Rightarrow> error + BlockedMap \<times> 'a list list \<times> bool" where
  "make_blocked bmap V =
     (case V of
        MultiVector v \<Rightarrow>
          andThen (new_BlockedMultiVector bmap v) (\<lambda>blocks. Inr (bmap, blocks, True))
      | BlockedMultiVector m blocks \<Rightarrow> Inr (m, blocks, False))"

definition reorder_if ::
  "bool \<Rightarrow> nat list list \<Rightarrow> 'a list list \<Rightarrow> error + 'a list list \<times> bool" where
  "reorder_if c brm bvec =
     (if c then andThen (buildReorderedBlockedMultiVector brm bvec) (\<lambda>r. Inr (r, True))
      else Inr (bvec, False))"

definition prepare ::
  "'a BlockedCrsMatrix \<Rightarrow> 'a MultiVector \<Rightarrow> 'a MultiVector \<Rightarrow> error + 'a prepared" where
  "prepare bA X B =
     (case asReordered bA of
        Some rbA \<Rightarrow>
          andThen (make_blocked (nativeDomainMap rbA) X)
            (\<lambda>(mX, bX0, bReorderX). andThen (make_blocked (nativeRangeMap rbA) B)
            (\<lambda>(mB, bB0, bReorderB).
               andThen (reorder_if (NumMaps mX \<noteq> NumMaps (getDomainMapExtractor bA) \<or> bReorderX)
                          (getBlockReorderManager rbA) bX0)
            (\<lambda>(rX, vX).
               andThen (reorder_if (NumMaps mB \<noteq> NumMaps (getRangeMapExtractor bA) \<or> bReorderB)
                          (getBlockReorderManager rbA) bB0)
            (\<lambda>(rB, vB).
               Inr \<lparr>mapX = mX, bX = bX0, rcpX = rX, rcpB = rB,
                    bCopyResultX = bReorderX, viewX = vX\<rparr>))))
      | None \<Rightarrow>
          andThen (make_blocked (getDomainMapExtractor bA) X)
            (\<lambda>(mX, bX0, wrappedX). andThen (make_blocked (getRangeMapExtractor bA) B)
            (\<lambda>(mB, bB0, wrappedB).
               Inr \<lparr>mapX = mX, bX = bX0, rcpX = bX0, rcpB = bB0,
                    bCopyResultX = wrappedX, viewX = False\<rparr>)))"

text \<open>Lines 270-273 and what the caller's \<open>X\<close> holds on return: the merged blocks when
  \<open>X\<close> came flat, the blocks updated in place otherwise.\<close>

definition finish ::
  "'a::comm_ring_1 BlockedCrsMatrix \<Rightarrow> 'a prepared \<Rightarrow> 'a list list \<Rightarrow> 'a MultiVector \<Rightarrow>
   error + 'a MultiVector" where
  "finish bA p rcpX_final X =
     (let bX_final =
            (if viewX p
             then (case asReordered bA of
                     Some rbA \<Rightarrow> write_through (getBlockReorderManager rbA) (bX p) rcpX_final
                   | None \<Rightarrow> rcpX_final)
             else rcpX_final)
      in
      case X of
        MultiVector v \<Rightarrow>
          if bCopyResultX p = True then
            andThen (update 1 (Merge (mapX p) bX_final) 0 v) (\<lambda>v. Inr (MultiVector v))
          else Inr (MultiVector v)
      | BlockedMultiVector m blocks \<Rightarrow> Inr (BlockedMultiVector m bX_final))"

definition Apply ::
  "('a::comm_ring_1, 'fm) BlockedGaussSeidelSmoother \<Rightarrow> 'a MultiVector \<Rightarrow> 'a MultiVector \<Rightarrow>
   bool \<Rightarrow> error + 'a MultiVector" where
  "Apply this X B InitialGuessIsZero =
     (if IsSetup this = False then Inl RuntimeError
      else
        case A' this of
          None \<Rightarrow> Inl RuntimeError
        | Some (CrsMatrixWrap _) \<Rightarrow> Inl RuntimeError
        | Some (BlockedCrs bA) \<Rightarrow>
            andThen (prepare bA X B)
              (\<lambda>p.
                 let residual = Build (rcpB p);
                     nSweeps = Sweeps this;
                     omega = Damping_factor this;
                     rcpX0 = (if InitialGuessIsZero = True then putScalar 0 (rcpX p)
                              else rcpX p)
                 in
                 andThen (sweeps this bA (rcpB p) InitialGuessIsZero omega nSweeps
                            (rcpX0, residual))
                   (\<lambda>(rcpX_final, residual). finish bA p rcpX_final X)))"

section \<open>Notions used to state the properties\<close>

text \<open>The steps \<open>body i\<close> for the indices of a list, one after the other in the order
  of the list, each on the state the one before left.\<close>

fun in_order :: "(nat \<Rightarrow> 'st \<Rightarrow> error + 'st) \<Rightarrow> nat list \<Rightarrow> 'st \<Rightarrow> error + 'st" where
  "in_order body [] st = Inr st"
| "in_order body (i # rest) st =
     (case body i st of Inl e \<Rightarrow> Inl e | Inr st' \<Rightarrow> in_order body rest st')"

text \<open>Step 3 of the spec as a scheme over a residual step \<open>res\<close> and an update step
  \<open>upd\<close>: the sweeps \<open>0, ..., S - 1\<close> one after the other, and in each sweep the block
  rows \<open>0, ..., N - 1\<close> in ascending order. The round of sweep \<open>run\<close> and row \<open>i\<close> works
  on the solution vector \<open>x\<close> and the residual vector \<open>r\<close> as the round before left
  them: it computes the residual from this \<open>x\<close>, then the new \<open>x\<close> from this \<open>x\<close> and the
  residual just computed.\<close>

definition gs_round ::
  "(int \<Rightarrow> nat \<Rightarrow> 'x \<Rightarrow> 'r \<Rightarrow> error + 'r) \<Rightarrow> (nat \<Rightarrow> 'x \<Rightarrow> 'r \<Rightarrow> error + 'x) \<Rightarrow>
   int \<Rightarrow> nat \<Rightarrow> 'x \<times> 'r \<Rightarrow> error + 'x \<times> 'r" where
  "gs_round res upd run i st =
     (case st of (x, r) \<Rightarrow>
        andThen (res run i x r) (\<lambda>r'. andThen (upd i x r') (\<lambda>x'. Inr (x', r'))))"

definition gs_sweeps ::
  "(int \<Rightarrow> nat \<Rightarrow> 'x \<Rightarrow> 'r \<Rightarrow> error + 'r) \<Rightarrow> (nat \<Rightarrow> 'x \<Rightarrow> 'r \<Rightarrow> error + 'x) \<Rightarrow>
   nat \<Rightarrow> int \<Rightarrow> 'x \<times> 'r \<Rightarrow> error + 'x \<times> 'r" where
  "gs_sweeps res upd N S st =
     in_order (\<lambda>k. in_order (gs_round res upd (int k)) [0..<N]) [0..<nat S] st"

text \<open>The caller's vector with every entry set to zero.\<close>

definition zeroed :: "'a::comm_ring_1 MultiVector \<Rightarrow> 'a MultiVector" where
  "zeroed X =
     (case X of
        MultiVector v \<Rightarrow> MultiVector (map (\<lambda>_. 0) v)
      | BlockedMultiVector m blocks \<Rightarrow> BlockedMultiVector m (putScalar 0 blocks))"

text \<open>The invariant of the data model on partition descriptors, where a flat solution
  vector is wrapped: the blocks of the descriptor used for the wrapping leave no gap in
  the index space of the vector.\<close>

definition well_partitioned :: "'a BlockedCrsMatrix \<Rightarrow> 'a MultiVector \<Rightarrow> bool" where
  "well_partitioned bA X =
     (case X of
        MultiVector v \<Rightarrow>
          set (concat (maps (case asReordered bA of
                               Some rbA \<Rightarrow> nativeDomainMap rbA
                             | None \<Rightarrow> getDomainMapExtractor bA)))
            = {0..<length v}
      | BlockedMultiVector m blocks \<Rightarrow> True)"

text \<open>The invariant of the data model on Reordering Plans, where the solution vector is
  re-partitioned: every native block is a leaf of the plan.\<close>

definition plan_covers :: "'a BlockedCrsMatrix \<Rightarrow> 'a prepared \<Rightarrow> bool" where
  "plan_covers bA p =
     (case asReordered bA of
        Some rbA \<Rightarrow>
          viewX p = False \<or> set (concat (getBlockReorderManager rbA)) = {0..<length (bX p)}
      | None \<Rightarrow> True)"

text \<open>The working vectors have the block sizes of the partition descriptors of the
  operator.\<close>

definition conforming :: "'a BlockedCrsMatrix \<Rightarrow> 'a prepared \<Rightarrow> bool" where
  "conforming bA p =
     (map length (rcpX p) = map length (maps (getDomainMapExtractor bA)) \<and>
      map length (rcpB p) = map length (maps (getRangeMapExtractor bA)))"

text \<open>The smoother is bound to the operator \<open>bA\<close> as one successful \<^verbatim>\<open>Setup\<close> binds it: the
  partition descriptors are those of \<open>bA\<close>, there is one sub-smoother per block row and
  block column. The collaborators keep to their interfaces: a sub-smoother writes its
  correction into the vector it is given, a block of the operator maps into the range
  of its block row.\<close>

definition bound_to ::
  "('a, 'fm) BlockedGaussSeidelSmoother \<Rightarrow> 'a BlockedCrsMatrix \<Rightarrow> bool" where
  "bound_to this bA =
     (IsSetup this = True \<and> A' this = Some (BlockedCrs bA) \<and>
      rangeMapExtractor' this = Some (getRangeMapExtractor bA) \<and>
      domainMapExtractor' this = Some (getDomainMapExtractor bA) \<and>
      length (Inverse' this) = Rows bA \<and> length (Inverse' this) = Cols bA \<and>
      Rows bA = NumMaps (getRangeMapExtractor bA) \<and>
      Cols bA = NumMaps (getDomainMapExtractor bA))"

definition in_place ::
  "('a, 'fm) BlockedGaussSeidelSmoother \<Rightarrow> 'a BlockedCrsMatrix \<Rightarrow> bool" where
  "in_place this bA =
     (\<forall>i X B z. i < length (Inverse' this) \<longrightarrow>
        length X = length (maps (getDomainMapExtractor bA) ! i) \<longrightarrow>
        length B = length (maps (getRangeMapExtractor bA) ! i) \<longrightarrow>
        length ((Inverse' this ! i) X B z) = length X)"

definition maps_into_range :: "'a BlockedCrsMatrix \<Rightarrow> bool" where
  "maps_into_range bA =
     (\<forall>r c Ablock v. getMatrix bA r c = Some Ablock \<longrightarrow> r < Rows bA \<longrightarrow> c < Cols bA \<longrightarrow>
        length v = length (maps (getDomainMapExtractor bA) ! c) \<longrightarrow>
        length (Ablock v) = length (maps (getRangeMapExtractor bA) ! r))"

text \<open>Step 3b-3d of the spec in the spec's words: the sub-smoother of row \<open>i\<close> is invoked
  on a zero \<open>\<Delta>x_i\<close> and \<open>r_i\<close> with the third argument \<open>true\<close>, and
  \<open>x_i \<leftarrow> x_i + \<omega> \<Delta>x_i\<close>.\<close>

definition spec_block_update ::
  "('a::comm_ring_1, 'fm) BlockedGaussSeidelSmoother \<Rightarrow> 'a \<Rightarrow> nat \<Rightarrow>
   'a list list \<Rightarrow> 'a list list \<Rightarrow> 'a list list" where
  "spec_block_update this omega i x r =
     x[i := map2 (\<lambda>xi dx. xi + omega * dx) (x ! i)
              ((Inverse' this ! i) (map (\<lambda>_. 0) (x ! i)) (r ! i) True)]"

section \<open>A concrete system\<close>

text \<open>
  A two-block system over \<open>int\<close>, used to run the definitions: block 0 holds positions
  0 and 2 of the flat vector, block 1 holds position 1; the operator is block lower
  triangular with identity diagonal blocks, \<open>A[1][0]\<close> sums the two entries of block 0,
  and each sub-smoother solves its identity block exactly.
\<close>

definition ex_map :: BlockedMap where
  "ex_map = \<lparr>maps = [[0, 2], [1]], getThyraMode = False\<rparr>"

definition ex_id :: "int list \<Rightarrow> int list" where
  "ex_id v = v"

definition ex_sum :: "int list \<Rightarrow> int list" where
  "ex_sum v = [sum_list v]"

definition ex_getMatrix :: "nat \<Rightarrow> nat \<Rightarrow> (int list \<Rightarrow> int list) option" where
  "ex_getMatrix r c =
     (if r = 0 \<and> c = 0 then Some ex_id
      else if r = 1 \<and> c = 0 then Some ex_sum
      else if r = 1 \<and> c = 1 then Some ex_id
      else None)"

definition ex_bA :: "int BlockedCrsMatrix" where
  "ex_bA = \<lparr>Rows = 2, Cols = 2, getMatrix = ex_getMatrix,
            getRangeMapExtractor = ex_map, getDomainMapExtractor = ex_map,
            asReordered = None\<rparr>"

definition ex_Smoo :: "int SmootherBase" where
  "ex_Smoo X B InitialGuessIsZero = B"

definition ex_Level :: "(int, nat) Level" where
  "ex_Level = \<lparr>Get_A = Some (BlockedCrs ex_bA),
               Get_PreSmoother = (\<lambda>fm. if fm < 2 then Some ex_Smoo else None),
               Get_sub_A = (\<lambda>fm. if fm < 2 then Some (CrsMatrixWrap ex_id) else None)\<rparr>"

text \<open>A prototype with one, and one with two registered sub-factory managers.\<close>

definition ex_one :: "(int, nat) BlockedGaussSeidelSmoother" where
  "ex_one = state (AddFactoryManager new_BlockedGaussSeidelSmoother 0 0)"

definition ex_two :: "(int, nat) BlockedGaussSeidelSmoother" where
  "ex_two = state (AddFactoryManager ex_one 1 1)"

text \<open>\<open>ex_two\<close> after one call of \<^verbatim>\<open>Setup\<close>, and after a second one.\<close>

definition ex_setup :: "(int, nat) BlockedGaussSeidelSmoother" where
  "ex_setup = state (Setup ex_two ex_Level)"

definition ex_setup_twice :: "(int, nat) BlockedGaussSeidelSmoother" where
  "ex_setup_twice = state (Setup ex_setup ex_Level)"

text \<open>A sub-smoother that looks at its third argument: told that the initial guess is
  zero it returns the exact solve of the identity block, otherwise it leaves the vector
  it was given as it is. \<open>ex_flagged\<close> is \<open>ex_setup\<close> with this sub-smoother on both rows.\<close>

definition ex_Flag :: "int SmootherBase" where
  "ex_Flag X B InitialGuessIsZero = (if InitialGuessIsZero then B else X)"

definition ex_flagged :: "(int, nat) BlockedGaussSeidelSmoother" where
  "ex_flagged = ex_setup\<lparr>Inverse' := [ex_Flag, ex_Flag]\<rparr>"

text \<open>The same operator as a reordered one: three native blocks of one entry each, the
  plan groups native blocks 0 and 2 into block 0 and native block 1 into block 1.\<close>

definition ex_native :: BlockedMap where
  "ex_native = \<lparr>maps = [[0], [1], [2]], getThyraMode = False\<rparr>"

definition ex_rbA :: "int BlockedCrsMatrix" where
  "ex_rbA = ex_bA\<lparr>asReordered :=
               Some \<lparr>getBlockReorderManager = [[0, 2], [1]],
                     nativeDomainMap = ex_native, nativeRangeMap = ex_native\<rparr>\<rparr>"

definition ex_reordered :: "(int, nat) BlockedGaussSeidelSmoother" where
  "ex_reordered = ex_setup\<lparr>A' := Some (BlockedCrs ex_rbA)\<rparr>"

text \<open>A flat solution vector and a flat right-hand side, and \<open>ex_setup\<close> with the
  damping factor 0.\<close>

definition ex_X :: "int MultiVector" where
  "ex_X = MultiVector [5, 6, 7]"

definition ex_B :: "int MultiVector" where
  "ex_B = MultiVector [1, 10, 2]"

definition ex_undamped :: "(int, nat) BlockedGaussSeidelSmoother" where
  "ex_undamped = ex_setup\<lparr>Damping_factor := 0\<rparr>"

text \<open>The same vectors in blocks: positions 0 and 2, then position 1.\<close>

definition ex_xs :: "int list list" where
  "ex_xs = [[5, 7], [6]]"

definition ex_bs :: "int list list" where
  "ex_bs = [[1, 2], [10]]"

text \<open>The objects a caller can hold before any \<^verbatim>\<open>Setup\<close>: what the constructor and
  successful or failed registrations produce.\<close>

inductive prototype :: "('a::comm_ring_1, 'fm) BlockedGaussSeidelSmoother \<Rightarrow> bool" where
  constructed: "prototype new_BlockedGaussSeidelSmoother"
| registered: "prototype s \<Longrightarrow> prototype (state (AddFactoryManager s fm pos))"
| configured: "prototype s \<Longrightarrow> prototype (s\<lparr>Sweeps := n, Damping_factor := omega\<rparr>)"

section \<open>Registration\<close>

text \<open>
  Claim C9. A call of \<^verbatim>\<open>AddFactoryManager\<close> with a negative position throws (the
  spec's InvalidArgument is \<^verbatim>\<open>Exceptions::RuntimeError\<close> in the code), leaves the object
  and with it the registry \<^verbatim>\<open>FactManager_\<close> as they were, and writes no warning.
\<close>

theorem AddFactoryManager_negative:
  "pos < 0 \<Longrightarrow>
     AddFactoryManager s fm pos = \<lparr>thrown = Some RuntimeError, state = s, warnings = []\<rparr>"
  by (simp add: AddFactoryManager_def)

theorem AddFactoryManager_negative_witness:
  "(- 1 :: int) < 0 \<and>
   AddFactoryManager (new_BlockedGaussSeidelSmoother :: (int, nat) BlockedGaussSeidelSmoother) 7 (- 1)
     = \<lparr>thrown = Some RuntimeError, state = new_BlockedGaussSeidelSmoother, warnings = []\<rparr>"
  using AddFactoryManager_negative [of "- 1" "new_BlockedGaussSeidelSmoother :: (int, nat) BlockedGaussSeidelSmoother" 7]
  by simp

section \<open>Setup\<close>

text \<open>When the level holds the smoother and the operator of every registered sub-factory
  manager, the loop of \<^verbatim>\<open>Setup\<close> does not throw and appends one entry per manager to
  what \<^verbatim>\<open>Inverse_\<close> and \<^verbatim>\<open>bIsBlockedOperator_\<close> already hold.\<close>

lemma Setup_loop_ok:
  "\<forall>fm \<in> set fms. Get_PreSmoother lvl fm \<noteq> None \<and> Get_sub_A lvl fm \<noteq> None \<Longrightarrow>
   Setup_loop lvl fms s =
     (None, s\<lparr>Inverse' := Inverse' s @ map (\<lambda>fm. the (Get_PreSmoother lvl fm)) fms,
              bIsBlockedOperator' := bIsBlockedOperator' s @
                 map (\<lambda>fm. is_BlockedCrsMatrix (the (Get_sub_A lvl fm))) fms\<rparr>)"
proof (induction fms arbitrary: s)
  case Nil
  then show ?case by simp
next
  case (Cons fm fms)
  then obtain Smoo Aii where g: "Get_PreSmoother lvl fm = Some Smoo" "Get_sub_A lvl fm = Some Aii"
    by auto
  have rest: "\<forall>fm \<in> set fms. Get_PreSmoother lvl fm \<noteq> None \<and> Get_sub_A lvl fm \<noteq> None"
    using Cons.prems by simp
  show ?case
    by (simp add: g Cons.IH [OF rest] Let_def)
qed

lemma ex_two_eq: "ex_two = new_BlockedGaussSeidelSmoother\<lparr>FactManager' := [0, 1]\<rparr>"
  by (simp add: ex_two_def ex_one_def AddFactoryManager_def new_BlockedGaussSeidelSmoother_def)

lemma ex_one_eq: "ex_one = new_BlockedGaussSeidelSmoother\<lparr>FactManager' := [0]\<rparr>"
  by (simp add: ex_one_def AddFactoryManager_def new_BlockedGaussSeidelSmoother_def)

lemma ex_setup_eq:
  "ex_setup = new_BlockedGaussSeidelSmoother
     \<lparr>FactManager' := [0, 1], Inverse' := [ex_Smoo, ex_Smoo], bIsBlockedOperator' := [False, False],
      A' := Some (BlockedCrs ex_bA), rangeMapExtractor' := Some ex_map,
      domainMapExtractor' := Some ex_map, IsSetup := True\<rparr>"
  by (simp add: ex_setup_def Setup_def ex_two_eq ex_Level_def ex_bA_def
      new_BlockedGaussSeidelSmoother_def is_BlockedCrsMatrix_def)

text \<open>
  Claim C2, as amended. Let the level hold a blocked operator \<open>bA\<close> and the smoother and
  operator of every registered sub-factory manager. Then \<^verbatim>\<open>Setup\<close> succeeds if and only if
  the number of registered managers equals both the block row and the block column count
  of \<open>bA\<close>. On a mismatch it throws \<^verbatim>\<open>Exceptions::RuntimeError\<close> (the spec's
  ConfigurationError) and leaves the set-up flag, the sub-smoothers, the blockedness flags
  and the partition descriptors as they were, but the member \<^verbatim>\<open>A_\<close> is already bound to
  the operator of the level (line 102 precedes the checks of lines 107-108).
\<close>

theorem Setup_block_counts:
  assumes A: "Get_A lvl = Some (BlockedCrs bA)"
    and ready: "\<forall>fm \<in> set (FactManager' s). Get_PreSmoother lvl fm \<noteq> None \<and> Get_sub_A lvl fm \<noteq> None"
  shows "(thrown (Setup s lvl) = None) =
           (Rows bA = length (FactManager' s) \<and> Cols bA = length (FactManager' s))
       \<and> (Rows bA \<noteq> length (FactManager' s) \<or> Cols bA \<noteq> length (FactManager' s) \<longrightarrow>
            Setup s lvl =
              \<lparr>thrown = Some RuntimeError, state = s\<lparr>A' := Some (BlockedCrs bA)\<rparr>,
               warnings = (if IsSetup s then [SetupAlreadyCalled] else [])\<rparr>)"
  using ready by (simp add: Setup_def A Let_def Setup_loop_ok)

theorem Setup_block_counts_witness:
  "thrown (Setup ex_two ex_Level) = None \<and> thrown (Setup ex_one ex_Level) = Some RuntimeError
   \<and> state (Setup ex_one ex_Level) = ex_one\<lparr>A' := Some (BlockedCrs ex_bA)\<rparr>"
proof -
  have A: "Get_A ex_Level = Some (BlockedCrs ex_bA)"
    by (simp add: ex_Level_def)
  have r2: "\<forall>fm \<in> set (FactManager' ex_two).
              Get_PreSmoother ex_Level fm \<noteq> None \<and> Get_sub_A ex_Level fm \<noteq> None"
    by (simp add: ex_two_eq ex_Level_def new_BlockedGaussSeidelSmoother_def)
  have r1: "\<forall>fm \<in> set (FactManager' ex_one).
              Get_PreSmoother ex_Level fm \<noteq> None \<and> Get_sub_A ex_Level fm \<noteq> None"
    by (simp add: ex_one_eq ex_Level_def new_BlockedGaussSeidelSmoother_def)
  have n: "Rows ex_bA = 2" "Cols ex_bA = 2" "length (FactManager' ex_two) = 2"
    "length (FactManager' ex_one) = 1" "\<not> IsSetup ex_one"
    by (simp_all add: ex_bA_def ex_two_eq ex_one_eq new_BlockedGaussSeidelSmoother_def)
  show ?thesis
    using Setup_block_counts [OF A r2] Setup_block_counts [OF A r1] by (simp add: n)
qed

text \<open>
  Claim C2 as stated fails in its last part: with one registered manager and a 2 x 2
  operator, \<^verbatim>\<open>Setup\<close> throws, and the member \<^verbatim>\<open>A_\<close>, null before the call, is bound to
  the operator after it.
\<close>

theorem Setup_mismatch_commits_A:
  "thrown (Setup ex_one ex_Level) = Some RuntimeError \<and> A' ex_one = None
   \<and> A' (state (Setup ex_one ex_Level)) = Some (BlockedCrs ex_bA)"
  by (simp add: Setup_def ex_one_eq ex_Level_def ex_bA_def new_BlockedGaussSeidelSmoother_def)

text \<open>
  Claim C5 at a concrete input: the two-manager prototype, set up twice on the same level.
  Neither call throws and the second writes the warning, but it pushes the sub-smoothers
  and the blockedness flags onto the vectors the first call filled (lines 121 and 125 push
  back, and nothing clears the vectors), so the object holds four sub-smoothers for two
  block rows and differs from the object a single \<^verbatim>\<open>Setup\<close> leaves.
\<close>

theorem Setup_twice_appends:
  "thrown (Setup ex_two ex_Level) = None \<and> thrown (Setup ex_setup ex_Level) = None
   \<and> warnings (Setup ex_setup ex_Level) = [SetupAlreadyCalled]
   \<and> Inverse' ex_setup = [ex_Smoo, ex_Smoo]
   \<and> Inverse' ex_setup_twice = [ex_Smoo, ex_Smoo, ex_Smoo, ex_Smoo]
   \<and> bIsBlockedOperator' ex_setup = [False, False]
   \<and> bIsBlockedOperator' ex_setup_twice = [False, False, False, False]
   \<and> ex_setup_twice \<noteq> ex_setup"
  apply (simp add: ex_setup_twice_def ex_setup_eq)
  apply (simp add: Setup_def ex_two_eq ex_Level_def ex_bA_def
      new_BlockedGaussSeidelSmoother_def is_BlockedCrsMatrix_def)
  done

section \<open>Copy\<close>

lemma prototype_unbound:
  "prototype s \<Longrightarrow> \<not> IsSetup s \<and> A' s = None \<and> Inverse' s = [] \<and> bIsBlockedOperator' s = []
     \<and> rangeMapExtractor' s = None \<and> domainMapExtractor' s = None"
  by (induction rule: prototype.induct)
     (auto simp: new_BlockedGaussSeidelSmoother_def AddFactoryManager_def Let_def)

text \<open>
  Claim C6, as amended. \<^verbatim>\<open>Copy\<close> returns a memberwise copy: the configuration and the
  runtime state of the instance alike. The copy of a prototype (an object that was
  constructed, configured and registered to, and never set up) is not set up and holds no
  operator, no sub-smoothers, no blockedness flags and no partition descriptors.
\<close>

theorem Copy_memberwise:
  "Copy this = this
   \<and> (prototype this \<longrightarrow>
        \<not> IsSetup (Copy this) \<and> A' (Copy this) = None \<and> Inverse' (Copy this) = []
        \<and> bIsBlockedOperator' (Copy this) = [] \<and> rangeMapExtractor' (Copy this) = None
        \<and> domainMapExtractor' (Copy this) = None)"
proof -
  have c: "Copy this = this" by (simp add: Copy_def)
  show ?thesis using prototype_unbound [of this] by (simp add: c)
qed

theorem Copy_memberwise_witness:
  "Copy ex_two = ex_two \<and> FactManager' (Copy ex_two) = [0, 1] \<and> \<not> IsSetup (Copy ex_two)
   \<and> A' (Copy ex_two) = None \<and> Inverse' (Copy ex_two) = []"
proof -
  have p: "prototype ex_two"
    unfolding ex_two_def ex_one_def by (intro prototype.intros)
  have f: "FactManager' ex_two = [0, 1]"
    by (simp add: ex_two_eq)
  show ?thesis using Copy_memberwise [of ex_two] p f by auto
qed

text \<open>
  Claim C6 as stated fails on an instance that was set up: its copy is set up too and
  holds the same operator, sub-smoothers and partition descriptors.
\<close>

theorem Copy_of_setup_is_setup:
  "IsSetup (Copy ex_setup) \<and> A' (Copy ex_setup) = Some (BlockedCrs ex_bA)
   \<and> Inverse' (Copy ex_setup) = [ex_Smoo, ex_Smoo]
   \<and> domainMapExtractor' (Copy ex_setup) = Some ex_map
   \<and> rangeMapExtractor' (Copy ex_setup) = Some ex_map"
  by (simp add: Copy_def ex_setup_eq)

section \<open>Loops and exceptions\<close>

declare for_rows.simps [simp del] for_sweeps.simps [simp del]

lemma andThen_Inr [simp]: "andThen (Inr x) f = f x"
  by (simp add: andThen_def)

lemma andThen_Inl [simp]: "andThen (Inl e) f = Inl e"
  by (simp add: andThen_def)

lemma andThen_eq_Inr:
  "(andThen m f = Inr y) = (\<exists>x. m = Inr x \<and> f x = Inr y)"
  by (cases m) simp_all

lemma for_rows_done: "\<not> i < n \<Longrightarrow> for_rows body n i st = Inr st"
  by (simp add: for_rows.simps)

lemma for_rows_step:
  "i < n \<Longrightarrow> for_rows body n i st =
     (case body i st of Inl e \<Rightarrow> Inl e | Inr st' \<Rightarrow> for_rows body n (i + 1) st')"
  by (subst for_rows.simps) simp

lemma for_sweeps_done: "\<not> run < nSweeps \<Longrightarrow> for_sweeps body nSweeps run st = Inr st"
  by (simp add: for_sweeps.simps)

lemma for_sweeps_step:
  "run < nSweeps \<Longrightarrow> for_sweeps body nSweeps run st =
     (case body run st of Inl e \<Rightarrow> Inl e | Inr st' \<Rightarrow> for_sweeps body nSweeps (run + 1) st')"
  by (subst for_sweeps.simps) simp

lemma for_rows_in_order: "for_rows body n i st = in_order body [i..<n] st"
proof (induction body n i st rule: for_rows.induct)
  case (1 body n i st)
  show ?case
  proof (cases "i < n")
    case True
    then have u: "[i..<n] = i # [Suc i..<n]"
      by (simp add: upt_conv_Cons)
    show ?thesis
      using True "1.IH" by (simp add: for_rows_step u split: sum.splits)
  next
    case False
    then show ?thesis by (simp add: for_rows_done)
  qed
qed

lemma in_order_append:
  "in_order body (xs @ ys) st =
     (case in_order body xs st of Inl e \<Rightarrow> Inl e | Inr st' \<Rightarrow> in_order body ys st')"
  by (induction xs arbitrary: st) (auto split: sum.splits)

lemma in_order_invariant:
  assumes step: "\<And>i st. i \<in> set xs \<Longrightarrow> P st \<Longrightarrow> \<exists>st'. body i st = Inr st' \<and> P st'"
    and init: "P st"
  shows "\<exists>st'. in_order body xs st = Inr st' \<and> P st'"
  using assms
proof (induction xs arbitrary: st)
  case Nil
  then show ?case by simp
next
  case (Cons i xs)
  obtain st1 where s1: "body i st = Inr st1" "P st1"
    using Cons.prems(1) [of i st] Cons.prems(2) by auto
  have "\<exists>st'. in_order body xs st1 = Inr st' \<and> P st'"
    using Cons.IH [of st1] Cons.prems(1) s1(2) by simp
  then show ?case by (simp add: s1(1))
qed

lemma for_sweeps_invariant:
  assumes step: "\<And>run st. P st \<Longrightarrow> \<exists>st'. body run st = Inr st' \<and> P st'"
  shows "P st \<Longrightarrow> \<exists>st'. for_sweeps body nSweeps run st = Inr st' \<and> P st'"
proof (induction "nat (nSweeps - run)" arbitrary: run st)
  case 0
  then show ?case by (simp add: for_sweeps_done)
next
  case (Suc k)
  then have lt: "run < nSweeps" by simp
  obtain st1 where s1: "body run st = Inr st1" "P st1"
    using step Suc.prems by blast
  have k: "k = nat (nSweeps - (run + 1))"
    using Suc.hyps(2) by simp
  show ?case
    using Suc.hyps(1) [OF k s1(2)] by (simp add: for_sweeps_step [OF lt] s1(1))
qed


subsection \<open>Entrywise updates\<close>

lemma map2_keep_second: "length A = length T \<Longrightarrow> map2 (\<lambda>a t. t) A T = T"
  by (induction A T rule: list_induct2) simp_all

lemma map2_keep_first: "length A = length T \<Longrightarrow> map2 (\<lambda>a t. a) A T = A"
  by (induction A T rule: list_induct2) simp_all

lemma update_zero_one: "length A = length T \<Longrightarrow> update 0 A 1 T = Inr T"
  by (simp add: update_def map2_keep_second)

lemma update_one_zero: "length A = length T \<Longrightarrow> update 1 A 0 T = Inr A"
  by (simp add: update_def map2_keep_first)

lemma update_length: "update alpha A beta T = Inr U \<Longrightarrow> length U = length T"
  by (auto simp: update_def split: if_splits)

lemma same_shape_length: "map length A = map length T \<Longrightarrow> length A = length T"
  by (metis length_map)

lemma map2_map2_keep_first:
  "length A = length T \<Longrightarrow> map length A = map length T \<Longrightarrow>
   map2 (map2 (\<lambda>a t. a)) A T = A"
  by (induction A T rule: list_induct2) (simp_all add: map2_keep_first)

lemma update_blocked_one_zero:
  "map length A = map length T \<Longrightarrow> update_blocked 1 A 0 T = Inr A"
  using same_shape_length [of A T] by (simp add: update_blocked_def map2_map2_keep_first)

lemma map2_map2_shape:
  "length A = length T \<Longrightarrow> map length A = map length T \<Longrightarrow>
   map length (map2 (map2 f) A T) = map length T"
  by (induction A T rule: list_induct2) simp_all

lemma update_blocked_ok:
  assumes s: "map length A = map length T"
  shows "\<exists>U. update_blocked alpha A beta T = Inr U \<and> map length U = map length T"
proof -
  have "map length (map2 (map2 (\<lambda>a t. alpha * a + beta * t)) A T) = map length T"
    by (rule map2_map2_shape [OF same_shape_length [OF s] s])
  then show ?thesis
    using s unfolding update_blocked_def by simp
qed

lemma putScalar_shape [simp]: "map length (putScalar c X) = map length X"
  by (simp add: putScalar_def)

lemma Build_shape [simp]: "map length (Build X) = map length X"
  by (simp add: Build_def)

subsection \<open>The row contribution\<close>

lemma same_shape_nth:
  "map length A = map length T \<Longrightarrow> i < length T \<Longrightarrow> length (A ! i) = length (T ! i)"
  by (metis length_map nth_map)

lemma bgs_column_ok:
  assumes "maps_into_range bA" "row < Rows bA" "col < Cols bA"
    "Cols bA = NumMaps (getDomainMapExtractor bA)"
    "map length X = map length (maps (getDomainMapExtractor bA))"
    "length Yblock = length (maps (getRangeMapExtractor bA) ! row)"
  shows "\<exists>Y'. bgs_column bA X row col Yblock = Inr Y' \<and>
              length Y' = length (maps (getRangeMapExtractor bA) ! row)"
proof (cases "getMatrix bA row col")
  case None
  then show ?thesis using assms by (simp add: bgs_column_def)
next
  case (Some Ablock)
  have lX: "length X = NumMaps (getDomainMapExtractor bA)"
    using same_shape_length [OF assms(5)] by (simp add: NumMaps_def)
  have c: "col < length (maps (getDomainMapExtractor bA))"
    using assms(3,4) by (simp add: NumMaps_def)
  have Xc: "length (X ! col) = length (maps (getDomainMapExtractor bA) ! col)"
    by (rule same_shape_nth [OF assms(5) c])
  have len: "length (Ablock (X ! col)) = length Yblock"
    using assms(1,2,3,6) Some Xc by (simp add: maps_into_range_def)
  show ?thesis
    using assms(3,4,6) lX Some len
    by (simp add: bgs_column_def ExtractVector_def update_def)
qed

lemma bgs_apply_ok:
  fixes bA :: "'a::comm_ring_1 BlockedCrsMatrix"
  assumes wf: "maps_into_range bA" and row: "row < Rows bA"
    and rows: "Rows bA = NumMaps (getRangeMapExtractor bA)"
    and cols: "Cols bA = NumMaps (getDomainMapExtractor bA)"
    and X: "map length X = map length (maps (getDomainMapExtractor bA))"
    and Y: "map length Y = map length (maps (getRangeMapExtractor bA))"
  shows "\<exists>Y'. bgs_apply bA X Y row alpha beta = Inr Y' \<and> map length Y' = map length Y"
proof -
  let ?rng = "getRangeMapExtractor bA"
  let ?n = "length (maps ?rng ! row)"
  have r: "row < NumMaps ?rng" using row rows by simp
  have lY: "length Y = NumMaps ?rng"
    using same_shape_length [OF Y] by (simp add: NumMaps_def)
  have Yrow: "length (Y ! row) = ?n"
  proof -
    have "map length Y ! row = map length (maps ?rng) ! row" using Y by simp
    then show ?thesis using r lY by (simp add: NumMaps_def)
  qed
  have "\<exists>Yb. in_order (bgs_column bA X row) [0..<Cols bA] (replicate ?n 0) = Inr Yb \<and> length Yb = ?n"
  proof (rule in_order_invariant)
    show "length (replicate ?n (0::'a)) = ?n" by simp
  next
    fix col and Yblock :: "'a list"
    assume "col \<in> set [0..<Cols bA]" and "length Yblock = ?n"
    then show "\<exists>Y'. bgs_column bA X row col Yblock = Inr Y' \<and> length Y' = ?n"
      using bgs_column_ok [OF wf row _ cols X] by simp
  qed
  then obtain Yb where Yb: "for_rows (bgs_column bA X row) (Cols bA) 0 (replicate ?n 0) = Inr Yb"
    "length Yb = ?n"
    by (auto simp: for_rows_in_order)
  have ins: "InsertVector ?rng Yb row (Build Y) (getThyraMode ?rng) = Inr ((Build Y)[row := Yb])"
    using r lY Yb(2) Yrow by (simp add: InsertVector_def Build_def putScalar_def)
  have shape: "map length ((Build Y)[row := Yb]) = map length Y"
    using r lY Yb(2) Yrow
    by (simp add: map_update list_update_same_conv)
  show ?thesis
    using r Yb(1) ins update_blocked_ok [OF shape, of alpha beta]
    by (simp add: bgs_apply_def row_contribution_def Let_def getVector_def)
qed

lemma Build_length [simp]: "length (Build X) = length X"
  by (simp add: Build_def putScalar_def)

lemma Build_nth_length: "i < length X \<Longrightarrow> length (Build X ! i) = length (X ! i)"
  by (simp add: Build_def putScalar_def)

lemma subtract_from_row:
  assumes row: "row < length Y" and len: "length P = length (Y ! row)"
  shows "map2 (map2 (\<lambda>a t. t - a)) ((Build Y)[row := P]) Y
         = Y[row := map2 (\<lambda>p y. y - p) P (Y ! row)]"
proof (rule nth_equalityI)
  show "length (map2 (map2 (\<lambda>a t. t - a)) ((Build Y)[row := P]) Y)
        = length (Y[row := map2 (\<lambda>p y. y - p) P (Y ! row)])"
    by (simp add: Build_def putScalar_def)
next
  fix j
  assume "j < length (map2 (map2 (\<lambda>a t. t - a)) ((Build Y)[row := P]) Y)"
  then have j: "j < length Y"
    by (simp add: Build_def putScalar_def)
  have z: "map2 (\<lambda>a t. t - a) (map (\<lambda>_. 0) y) y = y" for y :: "'a list"
    by (induction y) simp_all
  show "map2 (map2 (\<lambda>a t. t - a)) ((Build Y)[row := P]) Y ! j
        = Y[row := map2 (\<lambda>p y. y - p) P (Y ! row)] ! j"
    using j row by (simp add: Build_def putScalar_def nth_list_update z)
qed

lemma bgs_apply_subtracts:
  "bgs_apply bA X Y row (- 1) 1
     = (case row_contribution bA X row of
          Inl e \<Rightarrow> Inl e
        | Inr P \<Rightarrow>
            if NumMaps (getRangeMapExtractor bA) = length Y \<and> row < length Y \<and>
               length P = length (Y ! row)
            then Inr (Y[row := map2 (\<lambda>p y. y - p) P (Y ! row)])
            else Inl IncompatibleMaps)"
proof (cases "row_contribution bA X row")
  case (Inl e)
  then show ?thesis by (simp add: bgs_apply_def)
next
  case (Inr P)
  show ?thesis
  proof (cases "NumMaps (getRangeMapExtractor bA) = length Y \<and> row < length Y \<and>
                length P = length (Y ! row)")
    case True
    then have shape: "map length ((Build Y)[row := P]) = map length Y"
      by (simp add: map_update list_update_same_conv)
    show ?thesis
      using True
      by (simp add: bgs_apply_def Inr InsertVector_def Build_nth_length update_blocked_def
          shape subtract_from_row)
  next
    case False
    then show ?thesis
      by (auto simp: bgs_apply_def Inr InsertVector_def Build_nth_length)
  qed
qed

subsection \<open>A block row with damping factor 0\<close>

lemma block_update_zero_damping:
  assumes b: "bound_to this bA" and k: "in_place this bA"
    and i: "i < length (Inverse' this)"
    and X: "map length xs = map length (maps (getDomainMapExtractor bA))"
    and R: "map length residual = map length (maps (getRangeMapExtractor bA))"
  shows "block_update this 0 i xs residual = Inr xs"
proof -
  let ?dom = "getDomainMapExtractor bA"
  let ?rng = "getRangeMapExtractor bA"
  have lX: "length xs = NumMaps ?dom"
    using same_shape_length [OF X] by (simp add: NumMaps_def)
  have lR: "length residual = NumMaps ?rng"
    using same_shape_length [OF R] by (simp add: NumMaps_def)
  have iX: "i < length xs" and iR: "i < length residual"
    using b i lX lR by (simp_all add: bound_to_def)
  have Xi: "length (xs ! i) = length (maps ?dom ! i)"
  proof -
    have "map length xs ! i = map length (maps ?dom) ! i" using X by simp
    then show ?thesis using iX lX by (simp add: NumMaps_def)
  qed
  have Ri: "length (residual ! i) = length (maps ?rng ! i)"
    using same_shape_nth [OF R] iR lR by (simp add: NumMaps_def)
  have len: "length ((Inverse' this ! i) (replicate (length (maps ?dom ! i)) 0) (residual ! i) False)
               = length (xs ! i)"
    using k i Xi Ri by (simp add: in_place_def)
  show ?thesis
    using b i iX iR lX lR len
    by (simp add: block_update_def bound_to_def ExtractVector_def getVector_def
        update_zero_one Let_def)
qed

lemma block_row_zero_damping:
  assumes b: "bound_to this bA" and k: "in_place this bA"
    and wf: "maps_into_range bA"
    and i: "i < length (Inverse' this)"
    and B: "map length bs = map length (maps (getRangeMapExtractor bA))"
    and X: "map length xs = map length (maps (getDomainMapExtractor bA))"
    and R: "map length residual = map length (maps (getRangeMapExtractor bA))"
  shows "\<exists>residual'. block_row this bA bs z 0 run i (xs, residual) = Inr (xs, residual')
           \<and> map length residual' = map length (maps (getRangeMapExtractor bA))"
proof -
  have copy: "update_blocked 1 bs 0 residual = Inr bs"
    using B R by (simp add: update_blocked_one_zero)
  have lX: "length xs = NumMaps (getDomainMapExtractor bA)"
    using same_shape_length [OF X] by (simp add: NumMaps_def)
  have row: "i < Rows bA" using b i by (simp add: bound_to_def)
  have rows: "Rows bA = NumMaps (getRangeMapExtractor bA)"
    and cols: "Cols bA = NumMaps (getDomainMapExtractor bA)"
    using b by (simp_all add: bound_to_def)
  have "\<exists>residual'. block_residual bA bs z run i xs residual = Inr residual' \<and>
          map length residual' = map length (maps (getRangeMapExtractor bA))"
  proof (cases "z = False \<or> i > 0 \<or> run > 0")
    case True
    then show ?thesis
      using bgs_apply_ok [OF wf row rows cols X B, of "- 1" 1] B
      unfolding block_residual_def copy andThen_Inr by simp
  next
    case False
    then show ?thesis
      using B unfolding block_residual_def copy andThen_Inr by simp
  qed
  then obtain residual' where r': "block_residual bA bs z run i xs residual = Inr residual'"
    "map length residual' = map length (maps (getRangeMapExtractor bA))"
    by blast
  have u: "block_update this 0 i xs residual' = Inr xs"
    by (rule block_update_zero_damping [OF b k i X r'(2)])
  show ?thesis
    by (simp add: block_row_def r' u)
qed

lemma sweeps_zero_damping:
  assumes b: "bound_to this bA" and k: "in_place this bA"
    and wf: "maps_into_range bA"
    and B: "map length bs = map length (maps (getRangeMapExtractor bA))"
    and X: "map length xs = map length (maps (getDomainMapExtractor bA))"
    and R: "map length residual = map length (maps (getRangeMapExtractor bA))"
  shows "\<exists>residual'. sweeps this bA bs z 0 nSweeps (xs, residual) = Inr (xs, residual')"
proof -
  let ?shape = "map length (maps (getRangeMapExtractor bA))"
  let ?P = "\<lambda>st. fst st = xs \<and> map length (snd st) = ?shape"
  have row: "\<exists>st'. block_row this bA bs z 0 run i st = Inr st' \<and> ?P st'"
    if i_in: "i \<in> set [0..<length (Inverse' this)]" and P: "?P st" for run i st
  proof -
    have st: "st = (xs, snd st)" using P by (cases st) simp
    have i: "i < length (Inverse' this)" using i_in by simp
    have R': "map length (snd st) = ?shape" using P by simp
    obtain r' where "block_row this bA bs z 0 run i (xs, snd st) = Inr (xs, r')"
      "map length r' = ?shape"
      using block_row_zero_damping [OF b k wf i B X R', of z run] by blast
    then show ?thesis by (subst st) simp
  qed
  have one: "\<exists>st'. sweep this bA bs z 0 run st = Inr st' \<and> ?P st'" if P: "?P st" for run st
    unfolding sweep_def for_rows_in_order
    by (rule in_order_invariant [where P = ?P, OF row P])
  have init: "?P (xs, residual)" using R by simp
  have "\<exists>st'. for_sweeps (sweep this bA bs z 0) nSweeps 0 (xs, residual) = Inr st' \<and> ?P st'"
    by (rule for_sweeps_invariant [where P = ?P, OF one init])
  then obtain st' where "for_sweeps (sweep this bA bs z 0) nSweeps 0 (xs, residual) = Inr st'"
    "fst st' = xs"
    by blast
  then have "sweeps this bA bs z 0 nSweeps (xs, residual) = Inr (xs, snd st')"
    by (cases st') (simp add: sweeps_def)
  then show ?thesis by blast
qed

subsection \<open>Wrapping and flattening\<close>

lemma zip_with_image: "zip m (map f m) = map (\<lambda>g. (g, f g)) m"
  by (induction m) simp_all

lemma pairs_of_wrapped:
  "concat (map2 zip ms (map (map f) ms)) = map (\<lambda>g. (g, f g)) (concat ms)"
  by (induction ms) (simp_all add: zip_with_image)

lemma map_of_graph:
  "map_of (map (\<lambda>g. (g, f g)) xs) g = (if g \<in> set xs then Some (f g) else None)"
  by (induction xs) simp_all

lemma Merge_wrapped:
  assumes len: "length v = fullSize bmap" and cover: "set (concat (maps bmap)) = {0..<length v}"
  shows "Merge bmap (map (map (nth v)) (maps bmap)) = v"
proof -
  have "Merge bmap (map (map (nth v)) (maps bmap)) = map (nth v) [0..<length v]"
    unfolding Merge_def pairs_of_wrapped len [symmetric]
  proof (rule map_cong [OF refl])
    fix x
    assume "x \<in> set [0..<length v]"
    then have "x \<in> set (concat (maps bmap))" using cover by simp
    then show "(case map_of (map (\<lambda>g. (g, v ! g)) (concat (maps bmap))) x of
                  Some a \<Rightarrow> a | None \<Rightarrow> 0) = v ! x"
      by (simp only: map_of_graph if_True option.case)
  qed
  then show ?thesis by (simp add: map_nth)
qed

lemma pairs_of_zero:
  "(g, a) \<in> set (concat (map2 zip ms (putScalar 0 bs))) \<Longrightarrow> a = 0"
proof (induction ms arbitrary: bs)
  case Nil
  then show ?case by simp
next
  case (Cons m ms)
  show ?case
  proof (cases bs)
    case Nil
    then show ?thesis using Cons.prems by (simp add: putScalar_def)
  next
    case (Cons b bs')
    have "(g, a) \<in> set (zip m (map (\<lambda>_. 0) b)) \<or>
          (g, a) \<in> set (concat (map2 zip ms (putScalar 0 bs')))"
      using Cons.prems Cons by (simp add: putScalar_def)
    then show ?thesis
    proof
      assume "(g, a) \<in> set (zip m (map (\<lambda>_. 0) b))"
      then have "a \<in> set (map (\<lambda>_. 0) b)" by (rule set_zip_rightD)
      then show ?thesis by auto
    next
      assume "(g, a) \<in> set (concat (map2 zip ms (putScalar 0 bs')))"
      then show ?thesis by (rule Cons.IH)
    qed
  qed
qed

lemma Merge_zero: "Merge bmap (putScalar 0 bs) = replicate (fullSize bmap) 0"
proof -
  have "(case map_of (concat (map2 zip (maps bmap) (putScalar 0 bs))) g of
           Some a \<Rightarrow> a | None \<Rightarrow> 0) = (0::'a)" for g
  proof (cases "map_of (concat (map2 zip (maps bmap) (putScalar 0 bs))) g")
    case None
    then show ?thesis by simp
  next
    case (Some a)
    then have "(g, a) \<in> set (concat (map2 zip (maps bmap) (putScalar 0 bs)))"
      by (rule map_of_SomeD)
    then have "a = 0" by (rule pairs_of_zero)
    then show ?thesis using Some by simp
  qed
  then have "Merge bmap (putScalar 0 bs) = map (\<lambda>g. 0) [0..<fullSize bmap]"
    unfolding Merge_def by simp
  then show ?thesis by (simp add: map_replicate_const)
qed

subsection \<open>Re-partitioned views\<close>

lemma split_sizes_concat: "split_sizes (map length xs) (concat xs) = xs"
  by (induction xs) simp_all

lemma view_pairs:
  assumes shape: "\<forall>k \<in> set (concat brm). length (Z ! k) = length (bvec ! k)"
  shows "concat (map2 (\<lambda>g whole. zip g (split_sizes (map (\<lambda>k. length (bvec ! k)) g) whole))
                   brm (map (\<lambda>g. concat (map (nth Z) g)) brm))
         = map (\<lambda>k. (k, Z ! k)) (concat brm)"
  using shape
proof (induction brm)
  case Nil
  then show ?case by simp
next
  case (Cons g brm)
  have sizes: "map (\<lambda>k. length (bvec ! k)) g = map length (map (nth Z) g)"
    using Cons.prems by simp
  have "zip g (split_sizes (map (\<lambda>k. length (bvec ! k)) g) (concat (map (nth Z) g)))
        = map (\<lambda>k. (k, Z ! k)) g"
    unfolding sizes split_sizes_concat by (rule zip_with_image)
  then show ?case using Cons by simp
qed

lemma fold_writes_length:
  "length (fold (\<lambda>(k, part) acc. acc[k := part]) ps acc) = length acc"
  by (induction ps arbitrary: acc) (simp_all add: case_prod_beta)

lemma fold_writes_nth:
  "j < length acc \<Longrightarrow>
   fold (\<lambda>(k, part) acc. acc[k := part]) (map (\<lambda>k. (k, Z ! k)) ks) acc ! j
     = (if j \<in> set ks then Z ! j else acc ! j)"
proof (induction ks arbitrary: acc)
  case Nil
  then show ?case by simp
next
  case (Cons k ks)
  have "j < length (acc[k := Z ! k])" using Cons.prems by simp
  from Cons.IH [OF this] show ?case
    using Cons.prems by (simp add: nth_list_update)
qed

lemma write_through_view:
  assumes shape: "\<forall>k \<in> set (concat brm). length (Z ! k) = length (bvec ! k)"
    and len: "length Z = length bvec"
    and agree: "\<forall>j < length bvec. j \<notin> set (concat brm) \<longrightarrow> Z ! j = bvec ! j"
  shows "write_through brm bvec (map (\<lambda>g. concat (map (nth Z) g)) brm) = Z"
proof (rule nth_equalityI)
  show "length (write_through brm bvec (map (\<lambda>g. concat (map (nth Z) g)) brm)) = length Z"
    by (simp add: write_through_def fold_writes_length len)
next
  fix j
  assume "j < length (write_through brm bvec (map (\<lambda>g. concat (map (nth Z) g)) brm))"
  then have j: "j < length bvec"
    by (simp add: write_through_def fold_writes_length)
  show "write_through brm bvec (map (\<lambda>g. concat (map (nth Z) g)) brm) ! j = Z ! j"
    unfolding write_through_def view_pairs [OF shape]
    using agree j by (simp add: fold_writes_nth)
qed

lemma write_through_same:
  "write_through brm bvec (map (\<lambda>g. concat (map (nth bvec) g)) brm) = bvec"
  by (rule write_through_view) simp_all

lemma zero_view:
  assumes inr: "list_all (list_all (\<lambda>k. k < length bvec)) brm"
  shows "putScalar 0 (map (\<lambda>g. concat (map (nth bvec) g)) brm)
         = map (\<lambda>g. concat (map (nth (putScalar 0 bvec)) g)) brm"
proof -
  have "map (\<lambda>_. 0) (concat (map (nth bvec) g)) = concat (map (nth (putScalar 0 bvec)) g)"
    if "g \<in> set brm" for g
  proof -
    have "\<forall>k \<in> set g. k < length bvec"
      using inr that by (auto simp: list_all_iff)
    then have h: "map (nth (putScalar 0 bvec)) g = map (map (\<lambda>_. 0)) (map (nth bvec) g)"
      by (simp add: putScalar_def)
    show ?thesis by (simp only: map_concat h)
  qed
  then show ?thesis by (simp add: putScalar_def)
qed

lemma write_through_zero:
  assumes inr: "list_all (list_all (\<lambda>k. k < length bvec)) brm"
    and cover: "set (concat brm) = {0..<length bvec}"
  shows "write_through brm bvec (putScalar 0 (map (\<lambda>g. concat (map (nth bvec) g)) brm))
         = putScalar 0 bvec"
proof -
  have in_range: "\<forall>k \<in> set (concat brm). k < length bvec"
    using cover by simp
  show ?thesis
    unfolding zero_view [OF inr]
  proof (rule write_through_view)
    show "\<forall>k \<in> set (concat brm). length (putScalar 0 bvec ! k) = length (bvec ! k)"
      using in_range by (simp add: putScalar_def)
    show "length (putScalar 0 bvec) = length bvec"
      by (simp add: putScalar_def)
    show "\<forall>j < length bvec. j \<notin> set (concat brm) \<longrightarrow> putScalar 0 bvec ! j = bvec ! j"
      using cover by simp
  qed
qed

subsection \<open>Partition reconciliation and flattening\<close>

lemma make_blocked_flat:
  assumes "make_blocked bmap (MultiVector v) = Inr (m, bs, w)"
  shows "m = bmap \<and> w = True \<and> bs = map (map (nth v)) (maps bmap) \<and> length v = fullSize bmap"
  using assms
  by (auto simp: make_blocked_def new_BlockedMultiVector_def split: if_splits)

lemma make_blocked_blocked:
  assumes "make_blocked bmap (BlockedMultiVector m' bs') = Inr (m, bs, w)"
  shows "m = m' \<and> bs = bs' \<and> w = False"
  using assms by (simp add: make_blocked_def)

lemma reorder_if_cases:
  assumes "reorder_if c brm bvec = Inr (r, v)"
  shows "(v = True \<and> r = map (\<lambda>g. concat (map (nth bvec) g)) brm \<and>
          list_all (list_all (\<lambda>k. k < length bvec)) brm)
         \<or> (v = False \<and> r = bvec)"
  using assms
  by (auto simp: reorder_if_def buildReorderedBlockedMultiVector_def split: if_splits)

lemma prepare_plain:
  assumes "asReordered bA = None" "prepare bA X B = Inr p"
  shows "make_blocked (getDomainMapExtractor bA) X = Inr (mapX p, bX p, bCopyResultX p)
         \<and> rcpX p = bX p \<and> viewX p = False"
  using assms
  by (auto simp: prepare_def andThen_eq_Inr)

lemma prepare_reordered:
  assumes "asReordered bA = Some rbA" "prepare bA X B = Inr p"
  shows "make_blocked (nativeDomainMap rbA) X = Inr (mapX p, bX p, bCopyResultX p)
         \<and> (\<exists>c. reorder_if c (getBlockReorderManager rbA) (bX p) = Inr (rcpX p, viewX p))"
  using assms
  by (auto simp: prepare_def andThen_eq_Inr)

text \<open>The blocked solution vector behind the working vector.\<close>

lemma blocks_behind_same:
  assumes p: "prepare bA X B = Inr p"
  shows "(if viewX p
          then (case asReordered bA of
                  Some rbA \<Rightarrow> write_through (getBlockReorderManager rbA) (bX p) (rcpX p)
                | None \<Rightarrow> rcpX p)
          else rcpX p) = bX p"
proof (cases "asReordered bA")
  case None
  then show ?thesis using prepare_plain [OF None p] by simp
next
  case (Some rbA)
  obtain c where "reorder_if c (getBlockReorderManager rbA) (bX p) = Inr (rcpX p, viewX p)"
    using prepare_reordered [OF Some p] by blast
  from reorder_if_cases [OF this] show ?thesis
    by (auto simp: Some write_through_same)
qed

lemma blocks_behind_zero:
  assumes p: "prepare bA X B = Inr p" and cover: "plan_covers bA p"
  shows "(if viewX p
          then (case asReordered bA of
                  Some rbA \<Rightarrow>
                    write_through (getBlockReorderManager rbA) (bX p) (putScalar 0 (rcpX p))
                | None \<Rightarrow> putScalar 0 (rcpX p))
          else putScalar 0 (rcpX p)) = putScalar 0 (bX p)"
proof (cases "asReordered bA")
  case None
  then show ?thesis using prepare_plain [OF None p] by simp
next
  case (Some rbA)
  obtain c where "reorder_if c (getBlockReorderManager rbA) (bX p) = Inr (rcpX p, viewX p)"
    using prepare_reordered [OF Some p] by blast
  from reorder_if_cases [OF this] show ?thesis
  proof
    assume v: "viewX p = True \<and>
               rcpX p = map (\<lambda>g. concat (map (nth (bX p)) g)) (getBlockReorderManager rbA) \<and>
               list_all (list_all (\<lambda>k. k < length (bX p))) (getBlockReorderManager rbA)"
    then have c: "set (concat (getBlockReorderManager rbA)) = {0..<length (bX p)}"
      using cover by (simp add: plan_covers_def Some)
    show ?thesis
      using v by (simp add: Some write_through_zero [OF _ c])
  next
    assume "viewX p = False \<and> rcpX p = bX p"
    then show ?thesis by simp
  qed
qed

lemma wrapped_with:
  assumes p: "prepare bA (MultiVector v) B = Inr p"
  shows "mapX p = (case asReordered bA of
                     Some rbA \<Rightarrow> nativeDomainMap rbA
                   | None \<Rightarrow> getDomainMapExtractor bA)
         \<and> bCopyResultX p = True \<and> bX p = map (map (nth v)) (maps (mapX p))
         \<and> length v = fullSize (mapX p)"
proof (cases "asReordered bA")
  case None
  show ?thesis
    using prepare_plain [OF None p] make_blocked_flat [of "getDomainMapExtractor bA" v]
    by (simp add: None)
next
  case (Some rbA)
  show ?thesis
    using prepare_reordered [OF Some p] make_blocked_flat [of "nativeDomainMap rbA" v]
    by (simp add: Some)
qed

lemma blocked_with:
  assumes p: "prepare bA (BlockedMultiVector m bs) B = Inr p"
  shows "mapX p = m \<and> bX p = bs"
proof (cases "asReordered bA")
  case None
  show ?thesis
    using prepare_plain [OF None p] make_blocked_blocked [of "getDomainMapExtractor bA" m bs]
    by simp
next
  case (Some rbA)
  show ?thesis
    using prepare_reordered [OF Some p] make_blocked_blocked [of "nativeDomainMap rbA" m bs]
    by simp
qed

lemma finish_same:
  assumes p: "prepare bA X B = Inr p" and wp: "well_partitioned bA X"
  shows "finish bA p (rcpX p) X = Inr X"
proof (cases X)
  case (MultiVector v)
  note w = wrapped_with [OF p [unfolded MultiVector]]
  have cover: "set (concat (maps (mapX p))) = {0..<length v}"
    using wp w by (simp add: well_partitioned_def MultiVector)
  have m: "Merge (mapX p) (bX p) = v"
    using Merge_wrapped [of v "mapX p"] w cover by simp
  have bc: "bCopyResultX p = True" using w by simp
  show ?thesis
    unfolding finish_def blocks_behind_same [OF p] Let_def
    by (simp add: MultiVector bc m update_one_zero)
next
  case (BlockedMultiVector m bs)
  note w = blocked_with [OF p [unfolded BlockedMultiVector]]
  show ?thesis
    unfolding finish_def blocks_behind_same [OF p] Let_def
    using w by (simp add: BlockedMultiVector)
qed

lemma finish_zero:
  assumes p: "prepare bA X B = Inr p" and cover: "plan_covers bA p"
  shows "finish bA p (putScalar 0 (rcpX p)) X = Inr (zeroed X)"
proof (cases X)
  case (MultiVector v)
  note w = wrapped_with [OF p [unfolded MultiVector]]
  have m: "Merge (mapX p) (putScalar 0 (bX p)) = replicate (length v) 0"
    using w by (simp add: Merge_zero)
  have bc: "bCopyResultX p = True" using w by simp
  show ?thesis
    unfolding finish_def blocks_behind_zero [OF p cover] Let_def
    by (simp add: MultiVector bc m update_one_zero zeroed_def map_replicate_const)
next
  case (BlockedMultiVector m bs)
  note w = blocked_with [OF p [unfolded BlockedMultiVector]]
  show ?thesis
    unfolding finish_def blocks_behind_zero [OF p cover] Let_def
    using w by (simp add: BlockedMultiVector zeroed_def)
qed

subsection \<open>No sweeps\<close>

lemma sweeps_none: "nSweeps \<le> 0 \<Longrightarrow> sweeps this bA bs z omega nSweeps st = Inr st"
  by (simp add: sweeps_def for_sweeps_done)

lemma Apply_no_sweeps:
  assumes "Sweeps this \<le> 0"
  shows "Apply this X B z =
     (if IsSetup this = False then Inl RuntimeError
      else
        case A' this of
          None \<Rightarrow> Inl RuntimeError
        | Some (CrsMatrixWrap _) \<Rightarrow> Inl RuntimeError
        | Some (BlockedCrs bA) \<Rightarrow>
            andThen (prepare bA X B)
              (\<lambda>p. finish bA p (if z then putScalar 0 (rcpX p) else rcpX p) X))"
  using assms
  by (simp add: Apply_def Let_def sweeps_none split: option.splits Matrix.splits)

subsection \<open>One block row\<close>

lemma block_update_frame:
  assumes "block_update this omega i xs residual = Inr xs'"
  shows "length xs' = length xs \<and> (\<forall>j. j \<noteq> i \<longrightarrow> xs' ! j = xs ! j)"
  using assms
  by (auto simp: block_update_def andThen_eq_Inr Let_def split: option.splits if_splits)

lemma block_row_frame:
  assumes "block_row this bA bs z omega run i st = Inr st'"
  shows "length (fst st') = length (fst st) \<and> (\<forall>j. j \<noteq> i \<longrightarrow> fst st' ! j = fst st ! j)"
proof -
  obtain xs r where st: "st = (xs, r)" by (cases st)
  obtain r' xs' where "block_update this omega i xs r' = Inr xs'" "st' = (xs', r')"
    using assms unfolding st block_row_def by (auto simp: andThen_eq_Inr)
  then show ?thesis
    using block_update_frame [of this omega i xs r' xs'] by (simp add: st)
qed

lemma in_order_frame:
  assumes step: "\<And>i st st'. body i st = Inr st' \<Longrightarrow>
                   length (fst st') = length (fst st) \<and> (\<forall>j. j \<noteq> i \<longrightarrow> fst st' ! j = fst st ! j)"
  shows "in_order body ks st = Inr st' \<Longrightarrow>
         length (fst st') = length (fst st) \<and> (\<forall>j. j \<notin> set ks \<longrightarrow> fst st' ! j = fst st ! j)"
proof (induction ks arbitrary: st)
  case Nil
  then show ?case by simp
next
  case (Cons k ks)
  obtain st1 where s1: "body k st = Inr st1" and rest: "in_order body ks st1 = Inr st'"
    using Cons.prems by (auto split: sum.splits)
  show ?case
    using step [OF s1] Cons.IH [OF rest] by auto
qed

lemma upt_cut: "k \<le> i \<Longrightarrow> [0..<i] = [0..<k] @ [k..<i]"
  by (induction i) (auto simp: le_Suc_eq)

lemma upt_split: "k < i \<Longrightarrow> [0..<i] = [0..<k] @ k # [Suc k..<i]"
  using upt_cut [of k i] by (simp add: upt_conv_Cons)





subsection \<open>The loops of Apply as a scheme\<close>

lemma andThen_cong_Inr:
  "(\<And>x. m = Inr x \<Longrightarrow> f x = g x) \<Longrightarrow> andThen m f = andThen m g"
  by (cases m) simp_all

lemma for_sweeps_from:
  "for_sweeps body nSweeps (int j) st = in_order (\<lambda>k. body (int k)) [j..<nat nSweeps] st"
proof (induction "nat nSweeps - j" arbitrary: j st)
  case 0
  then have "\<not> int j < nSweeps" by linarith
  moreover have "[j..<nat nSweeps] = []" using 0 by simp
  ultimately show ?case by (simp add: for_sweeps_done)
next
  case (Suc m)
  then have lt: "int j < nSweeps" by linarith
  have u: "[j..<nat nSweeps] = j # [Suc j..<nat nSweeps]"
    using Suc.hyps(2) by (simp add: upt_conv_Cons)
  have m: "m = nat nSweeps - Suc j" using Suc.hyps(2) by simp
  have s: "int j + 1 = int (Suc j)" by simp
  show ?case
    unfolding for_sweeps_step [OF lt] u in_order.simps s Suc.hyps(1) [OF m] ..
qed

lemma for_sweeps_in_order:
  "for_sweeps body nSweeps 0 st = in_order (\<lambda>k. body (int k)) [0..<nat nSweeps] st"
  using for_sweeps_from [of body nSweeps 0 st] by simp

lemma block_row_round:
  "block_row this bA bs z omega = gs_round (block_residual bA bs z) (block_update this omega)"
  by (intro ext) (simp add: block_row_def gs_round_def)

lemma sweeps_scheme:
  "sweeps this bA bs z omega nSweeps st
     = gs_sweeps (block_residual bA bs z) (block_update this omega)
         (length (Inverse' this)) nSweeps st"
  by (simp add: sweeps_def for_sweeps_in_order sweep_def [abs_def] for_rows_in_order [abs_def]
      gs_sweeps_def block_row_round)

lemma Apply_scheme:
  assumes "IsSetup this" and "A' this = Some (BlockedCrs bA)"
  shows "Apply this X B z =
           andThen (prepare bA X B)
             (\<lambda>p. andThen
                     (gs_sweeps (block_residual bA (rcpB p) z)
                        (block_update this (Damping_factor this))
                        (length (Inverse' this)) (Sweeps this)
                        (if z then putScalar 0 (rcpX p) else rcpX p, Build (rcpB p)))
                     (\<lambda>(x, r). finish bA p x X))"
  using assms by (simp add: Apply_def Let_def sweeps_scheme)

text \<open>Rounds that agree on the states an invariant holds of.\<close>

lemma in_order_cong_inv:
  assumes eq: "\<And>i st. i \<in> set ks \<Longrightarrow> P st \<Longrightarrow> f i st = g i st"
    and pres: "\<And>i st st'. i \<in> set ks \<Longrightarrow> P st \<Longrightarrow> f i st = Inr st' \<Longrightarrow> P st'"
  shows "P st \<Longrightarrow> in_order f ks st = in_order g ks st
                  \<and> (\<forall>st'. in_order f ks st = Inr st' \<longrightarrow> P st')"
  using eq pres
proof (induction ks arbitrary: st)
  case Nil
  then show ?case by simp
next
  case (Cons k ks)
  have e: "f k st = g k st"
    by (rule Cons.prems(2)) (simp_all add: Cons.prems(1))
  show ?case
  proof (cases "f k st")
    case (Inl err)
    then show ?thesis using e by simp
  next
    case (Inr st1)
    have p1: "P st1"
      by (rule Cons.prems(3) [of k st st1]) (simp_all add: Cons.prems(1) Inr)
    have eq': "f i s = g i s" if "i \<in> set ks" "P s" for i s
      by (rule Cons.prems(2)) (simp_all add: that)
    have pres': "P s'" if "i \<in> set ks" "P s" "f i s = Inr s'" for i s s'
      by (rule Cons.prems(3) [of i s s']) (simp_all add: that)
    have "in_order f ks st1 = in_order g ks st1 \<and> (\<forall>st'. in_order f ks st1 = Inr st' \<longrightarrow> P st')"
      using p1 eq' pres' by (rule Cons.IH)
    moreover have "g k st = Inr st1" using e Inr by simp
    ultimately show ?thesis by (simp add: Inr)
  qed
qed

lemma gs_sweeps_cong_inv:
  assumes eq: "\<And>k i st. i < N \<Longrightarrow> P st \<Longrightarrow>
                 gs_round res upd (int k) i st = gs_round res' upd' (int k) i st"
    and pres: "\<And>k i st st'. i < N \<Longrightarrow> P st \<Longrightarrow>
                 gs_round res upd (int k) i st = Inr st' \<Longrightarrow> P st'"
    and init: "P st"
  shows "gs_sweeps res upd N S st = gs_sweeps res' upd' N S st"
proof -
  let ?f = "\<lambda>k. in_order (gs_round res upd (int k)) [0..<N]"
  let ?g = "\<lambda>k. in_order (gs_round res' upd' (int k)) [0..<N]"
  have inner: "?f k s = ?g k s \<and> (\<forall>s'. ?f k s = Inr s' \<longrightarrow> P s')" if Ps: "P s" for k s
  proof (rule in_order_cong_inv [where P = P, OF _ _ Ps])
    fix i st
    assume "i \<in> set [0..<N]" and "P st"
    then show "gs_round res upd (int k) i st = gs_round res' upd' (int k) i st"
      using eq [of i st k] by simp
  next
    fix i st st'
    assume "i \<in> set [0..<N]" and "P st" and "gs_round res upd (int k) i st = Inr st'"
    then show "P st'"
      using pres [of i st k st'] by simp
  qed
  have "in_order ?f [0..<nat S] st = in_order ?g [0..<nat S] st
        \<and> (\<forall>st'. in_order ?f [0..<nat S] st = Inr st' \<longrightarrow> P st')"
  proof (rule in_order_cong_inv [where P = P, OF _ _ init])
    fix k s
    assume "P s"
    then show "?f k s = ?g k s" using inner by blast
  next
    fix k s s'
    assume "P s" and "?f k s = Inr s'"
    then show "P s'" using inner by blast
  qed
  then show ?thesis by (simp add: gs_sweeps_def)
qed

lemma update_blocked_shape:
  assumes "update_blocked alpha A beta T = Inr U"
  shows "map length U = map length T"
proof -
  have s: "map length A = map length T"
    using assms by (simp add: update_blocked_def split: if_splits)
  from update_blocked_ok [OF s, of alpha beta] assms show ?thesis by auto
qed

lemma bgs_apply_shape:
  assumes "bgs_apply bA X Y row alpha beta = Inr Y'"
  shows "map length Y' = map length Y"
proof -
  obtain tmpY where "update_blocked alpha tmpY beta Y = Inr Y'"
    using assms by (auto simp: bgs_apply_def Let_def andThen_eq_Inr)
  then show ?thesis by (rule update_blocked_shape)
qed

lemma block_residual_shape:
  assumes "block_residual bA b z run i x r = Inr r'"
  shows "map length r' = map length b"
proof -
  obtain r1 where u: "update_blocked 1 b 0 r = Inr r1"
    and rest: "(if z = False \<or> i > 0 \<or> run > 0 then bgs_apply bA x r1 i (- 1) 1 else Inr r1) = Inr r'"
    using assms by (auto simp: block_residual_def andThen_eq_Inr)
  have s: "map length b = map length r"
    using u by (simp add: update_blocked_def split: if_splits)
  have r1: "r1 = b"
    using u update_blocked_one_zero [OF s] by simp
  show ?thesis
  proof (cases "z = False \<or> i > 0 \<or> run > 0")
    case True
    then have "bgs_apply bA x b i (- 1) 1 = Inr r'" using rest r1 by simp
    then show ?thesis by (rule bgs_apply_shape)
  next
    case False
    then show ?thesis using rest r1 by simp
  qed
qed

lemma block_residual_eq:
  assumes "map length residual = map length bs" and "0 \<le> run"
  shows "block_residual bA bs z run i xs residual
           = (if z \<and> i = 0 \<and> run = 0 then Inr bs else bgs_apply bA xs bs i (- 1) 1)"
proof -
  have copy: "update_blocked 1 bs 0 residual = Inr bs"
    using assms(1) by (simp add: update_blocked_one_zero)
  show ?thesis
    using assms(2) by (auto simp: block_residual_def copy)
qed

lemma block_update_eq:
  assumes "domainMapExtractor' this = Some dme" and "rangeMapExtractor' this = Some rme"
    and "NumMaps dme = length xs" and "NumMaps rme = length residual"
    and "i < length xs" and "i < length residual" and "i < length (Inverse' this)"
  shows "block_update this omega i xs residual
           = (let dx = (Inverse' this ! i) (replicate (length (maps dme ! i)) 0) (residual ! i) False
              in if length dx = length (xs ! i)
                 then Inr (xs[i := map2 (\<lambda>d x. omega * d + x) dx (xs ! i)])
                 else Inl IncompatibleMaps)"
  using assms
  by (simp add: block_update_def ExtractVector_def getVector_def update_def Let_def)

lemma Setup_loop_pushes:
  "Setup_loop lvl fms s = (None, s') \<Longrightarrow> length (Inverse' s') = length (Inverse' s) + length fms"
proof (induction fms arbitrary: s)
  case Nil
  then show ?case by simp
next
  case (Cons fm fms)
  then show ?case
    by (auto simp: Let_def split: option.splits)
qed

lemma Setup_rows:
  assumes "Inverse' s = []" and "Get_A lvl = Some (BlockedCrs bA)"
    and "thrown (Setup s lvl) = None"
  shows "length (Inverse' (state (Setup s lvl))) = Rows bA"
proof -
  let ?s2 = "s\<lparr>A' := Some (BlockedCrs bA),
               rangeMapExtractor' := Some (getRangeMapExtractor bA),
               domainMapExtractor' := Some (getDomainMapExtractor bA)\<rparr>"
  have n: "Rows bA = length (FactManager' s)"
    using assms(2,3) by (simp add: Setup_def Let_def split: if_splits)
  obtain e s3 where l: "Setup_loop lvl (FactManager' s) ?s2 = (e, s3)"
    by (cases "Setup_loop lvl (FactManager' s) ?s2")
  have "e = None \<and> state (Setup s lvl) = s3\<lparr>IsSetup := True\<rparr>"
    using assms(2,3) l by (auto simp: Setup_def Let_def split: if_splits option.splits)
  then show ?thesis
    using Setup_loop_pushes [of lvl "FactManager' s" ?s2 s3] l assms(1) n by simp
qed

lemma Apply_explicit_residual:
  assumes "IsSetup this" and "A' this = Some (BlockedCrs bA)"
  shows "Apply this X B z =
           andThen (prepare bA X B)
             (\<lambda>p. andThen
                     (gs_sweeps
                        (\<lambda>run i x r. if z \<and> i = 0 \<and> run = 0 then Inr (rcpB p)
                                      else bgs_apply bA x (rcpB p) i (- 1) 1)
                        (block_update this (Damping_factor this))
                        (length (Inverse' this)) (Sweeps this)
                        (if z then putScalar 0 (rcpX p) else rcpX p, Build (rcpB p)))
                     (\<lambda>(x, r). finish bA p x X))"
proof -
  have same: "gs_sweeps (block_residual bA b z) upd N S (x0, Build b)
              = gs_sweeps (\<lambda>run i x r. if z \<and> i = 0 \<and> run = 0 then Inr b
                                       else bgs_apply bA x b i (- 1) 1) upd N S (x0, Build b)"
    for b :: "'a list list" and upd :: "nat \<Rightarrow> 'a list list \<Rightarrow> 'a list list \<Rightarrow> error + 'a list list"
      and N S x0
  proof (rule gs_sweeps_cong_inv [where P = "\<lambda>st. map length (snd st) = map length b"])
    fix k :: nat and i and st :: "'a list list \<times> 'a list list"
    assume "map length (snd st) = map length b"
    then show "gs_round (block_residual bA b z) upd (int k) i st
               = gs_round (\<lambda>run i x r. if z \<and> i = 0 \<and> run = 0 then Inr b
                                        else bgs_apply bA x b i (- 1) 1) upd (int k) i st"
      by (cases st) (simp add: gs_round_def block_residual_eq)
  next
    fix k :: nat and i and st st' :: "'a list list \<times> 'a list list"
    assume "gs_round (block_residual bA b z) upd (int k) i st = Inr st'"
    then show "map length (snd st') = map length b"
      by (cases st) (auto simp: gs_round_def andThen_eq_Inr dest: block_residual_shape)
  next
    show "map length (snd (x0, Build b)) = map length b" by simp
  qed
  show ?thesis
    unfolding Apply_scheme [OF assms] same ..
qed

subsection \<open>The concrete system is well formed\<close>

lemma ex_bound: "bound_to ex_setup ex_bA"
  by (simp add: bound_to_def ex_setup_eq new_BlockedGaussSeidelSmoother_def ex_bA_def
      NumMaps_def ex_map_def)

lemma ex_in_place: "in_place ex_setup ex_bA"
  by (auto simp: in_place_def ex_setup_eq new_BlockedGaussSeidelSmoother_def ex_bA_def
      ex_map_def ex_Smoo_def less_Suc_eq numeral_2_eq_2)

lemma ex_maps_into_range: "maps_into_range ex_bA"
  by (auto simp: maps_into_range_def ex_bA_def ex_getMatrix_def ex_map_def ex_id_def
      ex_sum_def split: if_splits)

section \<open>The order of the block rows in a sweep\<close>

text \<open>
  Claim C1. On a set-up smoother \<^verbatim>\<open>Apply\<close> is the partition reconciliation, then the
  sweeps \<open>0, ..., S - 1\<close> one after the other and in each sweep the rounds of the block rows
  \<open>0, 1, ..., N - 1\<close> in this order, then the copy-back; \<open>N\<close> is the number of
  sub-smoothers, which after a \<^verbatim>\<open>Setup\<close> of a prototype is the number of block rows of the
  operator. The round of block row \<open>i\<close> computes its residual (lines 251-253: \<open>b\<close>, or
  \<^verbatim>\<open>bgs_apply\<close> on \<open>x\<close> and \<open>b\<close>) from the solution vector \<open>x\<close> as the rounds of rows
  \<open>0..i-1\<close> of the same sweep left it, and updates that \<open>x\<close>. In that vector the blocks \<open>j \<ge> i\<close> are those the sweep started from
  (the previous sweep or the initial guess), and each block \<open>k < i\<close> is the block that the
  round of row \<open>k\<close> wrote, its damped correction applied.
\<close>

theorem gauss_seidel_order:
  fixes this :: "('a::comm_ring_1, 'fm) BlockedGaussSeidelSmoother"
    and s :: "('a, 'fm) BlockedGaussSeidelSmoother"
  shows "(IsSetup this \<longrightarrow> A' this = Some (BlockedCrs bA) \<longrightarrow>
            Apply this X B z =
              andThen (prepare bA X B)
                (\<lambda>p. andThen
                        (gs_sweeps
                           (\<lambda>run i x r. if z \<and> i = 0 \<and> run = 0 then Inr (rcpB p)
                                         else bgs_apply bA x (rcpB p) i (- 1) 1)
                           (block_update this (Damping_factor this))
                           (length (Inverse' this)) (Sweeps this)
                           (if z then putScalar 0 (rcpX p) else rcpX p, Build (rcpB p)))
                        (\<lambda>(x, r). finish bA p x X)))
       \<and> sweeps this bA bs z omega nSweeps st
           = in_order (\<lambda>k. sweep this bA bs z omega (int k)) [0..<nat nSweeps] st
       \<and> sweep this bA bs z omega run st
           = in_order (block_row this bA bs z omega run) [0..<length (Inverse' this)] st
       \<and> (\<forall>i. in_order (block_row this bA bs z omega run) [0..<Suc i] st
              = (case in_order (block_row this bA bs z omega run) [0..<i] st of
                   Inl e \<Rightarrow> Inl e
                 | Inr sti \<Rightarrow> block_row this bA bs z omega run i sti))
       \<and> (\<forall>i x r. block_row this bA bs z omega run i (x, r)
              = andThen (block_residual bA bs z run i x r)
                  (\<lambda>r'. andThen (block_update this omega i x r') (\<lambda>x'. Inr (x', r'))))
       \<and> (\<forall>i sti. in_order (block_row this bA bs z omega run) [0..<i] st = Inr sti \<longrightarrow>
              length (fst sti) = length (fst st) \<and>
              (\<forall>j\<ge>i. fst sti ! j = fst st ! j) \<and>
              (\<forall>k<i. \<forall>stk stk'.
                 in_order (block_row this bA bs z omega run) [0..<k] st = Inr stk \<longrightarrow>
                 block_row this bA bs z omega run k stk = Inr stk' \<longrightarrow>
                 fst sti ! k = fst stk' ! k))
       \<and> (prototype s \<longrightarrow> Get_A lvl = Some (BlockedCrs bA) \<longrightarrow> thrown (Setup s lvl) = None \<longrightarrow>
            length (Inverse' (state (Setup s lvl))) = Rows bA)"
proof -
  let ?body = "block_row this bA bs z omega run"
  have A: "IsSetup this \<longrightarrow> A' this = Some (BlockedCrs bA) \<longrightarrow>
            Apply this X B z =
              andThen (prepare bA X B)
                (\<lambda>p. andThen
                        (gs_sweeps
                           (\<lambda>run i x r. if z \<and> i = 0 \<and> run = 0 then Inr (rcpB p)
                                         else bgs_apply bA x (rcpB p) i (- 1) 1)
                           (block_update this (Damping_factor this))
                           (length (Inverse' this)) (Sweeps this)
                           (if z then putScalar 0 (rcpX p) else rcpX p, Build (rcpB p)))
                        (\<lambda>(x, r). finish bA p x X))"
    using Apply_explicit_residual [of this bA X B z] by blast
  have S: "sweeps this bA bs z omega nSweeps st
             = in_order (\<lambda>k. sweep this bA bs z omega (int k)) [0..<nat nSweeps] st"
    by (simp add: sweeps_def for_sweeps_in_order)
  have frame: "length (fst s') = length (fst s0) \<and> (\<forall>j. j \<notin> set ks \<longrightarrow> fst s' ! j = fst s0 ! j)"
    if "in_order ?body ks s0 = Inr s'" for ks s0 s'
    by (rule in_order_frame [of ?body, OF _ that]) (rule block_row_frame)
  have a: "sweep this bA bs z omega run st = in_order ?body [0..<length (Inverse' this)] st"
    by (simp add: sweep_def for_rows_in_order)
  have b: "in_order ?body [0..<Suc i] st
             = (case in_order ?body [0..<i] st of Inl e \<Rightarrow> Inl e | Inr sti \<Rightarrow> ?body i sti)" for i
    by (simp add: in_order_append split: sum.splits)
  have r: "?body i (x, r)
             = andThen (block_residual bA bs z run i x r)
                 (\<lambda>r'. andThen (block_update this omega i x r') (\<lambda>x'. Inr (x', r')))" for i x r
    by (simp add: block_row_def)
  have c: "length (fst sti) = length (fst st) \<and> (\<forall>j\<ge>i. fst sti ! j = fst st ! j)"
    if "in_order ?body [0..<i] st = Inr sti" for i sti
    using frame [OF that] by simp
  have d: "fst sti ! k = fst stk' ! k"
    if i: "in_order ?body [0..<i] st = Inr sti" and k: "k < i"
      and sk: "in_order ?body [0..<k] st = Inr stk" and sk': "?body k stk = Inr stk'"
    for i sti k stk stk'
  proof -
    have "in_order ?body [Suc k..<i] stk' = Inr sti"
      using i sk sk' by (simp add: upt_split [OF k] in_order_append)
    from frame [OF this] show ?thesis by simp
  qed
  have E: "prototype s \<longrightarrow> Get_A lvl = Some (BlockedCrs bA) \<longrightarrow> thrown (Setup s lvl) = None \<longrightarrow>
            length (Inverse' (state (Setup s lvl))) = Rows bA"
    using Setup_rows [of s lvl bA] prototype_unbound [of s] by blast
  have cd: "\<forall>i sti. in_order ?body [0..<i] st = Inr sti \<longrightarrow>
              length (fst sti) = length (fst st) \<and>
              (\<forall>j\<ge>i. fst sti ! j = fst st ! j) \<and>
              (\<forall>k<i. \<forall>stk stk'.
                 in_order ?body [0..<k] st = Inr stk \<longrightarrow> ?body k stk = Inr stk' \<longrightarrow>
                 fst sti ! k = fst stk' ! k)"
  proof (intro allI impI conjI)
    fix i sti
    assume "in_order ?body [0..<i] st = Inr sti"
    from c [OF this] show "length (fst sti) = length (fst st)" by simp
  next
    fix i sti j
    assume "in_order ?body [0..<i] st = Inr sti" and "i \<le> j"
    with c [of i sti] show "fst sti ! j = fst st ! j" by simp
  next
    fix i sti k stk stk'
    assume "in_order ?body [0..<i] st = Inr sti" and "k < i"
      and "in_order ?body [0..<k] st = Inr stk" and "?body k stk = Inr stk'"
    then show "fst sti ! k = fst stk' ! k" by (rule d)
  qed
  have b': "\<forall>i. in_order ?body [0..<Suc i] st
             = (case in_order ?body [0..<i] st of Inl e \<Rightarrow> Inl e | Inr sti \<Rightarrow> ?body i sti)"
    using b by blast
  have r': "\<forall>i x r. ?body i (x, r)
             = andThen (block_residual bA bs z run i x r)
                 (\<lambda>r'. andThen (block_update this omega i x r') (\<lambda>x'. Inr (x', r')))"
    using r by blast
  show ?thesis
    by (intro conjI A S a b' r' cd E)
qed

theorem gauss_seidel_order_witness:
  "Apply ex_setup ex_X ex_B False = Inr (MultiVector [1, 7, 2])
   \<and> sweep ex_setup ex_bA ex_bs False 1 0 (ex_xs, Build ex_bs) = Inr ([[1, 2], [7]], [[1, 2], [1]])
   \<and> in_order (block_row ex_setup ex_bA ex_bs False 1 0) [0..<1] (ex_xs, Build ex_bs)
       = Inr ([[1, 2], [6]], [[- 4, - 5], [10]])
   \<and> block_row ex_setup ex_bA ex_bs False 1 0 1 ([[1, 2], [6]], [[- 4, - 5], [10]])
       = Inr ([[1, 2], [7]], [[1, 2], [1]])
   \<and> length (Inverse' (state (Setup ex_two ex_Level))) = Rows ex_bA"
proof -
  let ?body = "block_row ex_setup ex_bA ex_bs False 1 0"
  note t = gauss_seidel_order [of ex_setup ex_bA ex_X ex_B False ex_bs 1 0 "(ex_xs, Build ex_bs)" 0
      ex_two ex_Level]
  have s: "IsSetup ex_setup" "A' ex_setup = Some (BlockedCrs ex_bA)"
    by (simp_all add: ex_setup_eq)
  have n: "length (Inverse' ex_setup) = Suc 1"
    by (simp add: ex_setup_eq)
  have e0: "andThen (prepare ex_bA ex_X ex_B)
              (\<lambda>p. andThen
                      (gs_sweeps
                         (\<lambda>run i x r. if False \<and> i = 0 \<and> run = 0 then Inr (rcpB p)
                                       else bgs_apply ex_bA x (rcpB p) i (- 1) 1)
                         (block_update ex_setup (Damping_factor ex_setup))
                         (length (Inverse' ex_setup)) (Sweeps ex_setup)
                         (if False then putScalar 0 (rcpX p) else rcpX p, Build (rcpB p)))
                      (\<lambda>(x, r). finish ex_bA p x ex_X))
            = Inr (MultiVector [1, 7, 2])"
    by code_simp
  have A: "Apply ex_setup ex_X ex_B False = Inr (MultiVector [1, 7, 2])"
    using t [THEN conjunct1] s e0 by simp
  have e1: "in_order ?body [0..<1] (ex_xs, Build ex_bs) = Inr ([[1, 2], [6]], [[- 4, - 5], [10]])"
    by code_simp
  have e2: "?body 1 ([[1, 2], [6]], [[- 4, - 5], [10]]) = Inr ([[1, 2], [7]], [[1, 2], [1]])"
    by code_simp
  have a: "sweep ex_setup ex_bA ex_bs False 1 0 (ex_xs, Build ex_bs)
             = in_order ?body [0..<Suc 1] (ex_xs, Build ex_bs)"
    using t [THEN conjunct2, THEN conjunct2, THEN conjunct1] n by simp
  have b: "in_order ?body [0..<Suc 1] (ex_xs, Build ex_bs)
             = (case in_order ?body [0..<1] (ex_xs, Build ex_bs) of
                  Inl e \<Rightarrow> Inl e | Inr sti \<Rightarrow> ?body 1 sti)"
    using t [THEN conjunct2, THEN conjunct2, THEN conjunct2, THEN conjunct1] by blast
  have p: "prototype ex_two"
    unfolding ex_two_def ex_one_def by (intro prototype.intros)
  have g: "Get_A ex_Level = Some (BlockedCrs ex_bA)"
    by (simp add: ex_Level_def)
  have ok: "thrown (Setup ex_two ex_Level) = None"
    by code_simp
  have E: "length (Inverse' (state (Setup ex_two ex_Level))) = Rows ex_bA"
    using t [THEN conjunct2, THEN conjunct2, THEN conjunct2, THEN conjunct2, THEN conjunct2,
        THEN conjunct2] p g ok by blast
  have sw: "sweep ex_setup ex_bA ex_bs False 1 0 (ex_xs, Build ex_bs)
              = Inr ([[1, 2], [7]], [[1, 2], [1]])"
    by (simp only: a b e1 e2 sum.case)
  show ?thesis
    by (intro conjI A sw e1 e2 E)
qed

section \<open>The residual of a block row\<close>

text \<open>
  Claim C3. On a set-up smoother the run of \<^verbatim>\<open>Apply\<close> is the scheme of sweeps and block
  rows in which the round of sweep \<open>run\<close> and block row \<open>i\<close> takes as its residual a full
  copy of \<open>b\<close> when \<open>run = 0\<close>, \<open>i = 0\<close> and \<^verbatim>\<open>InitialGuessIsZero\<close> holds, and otherwise
  \<open>b\<close> with the row contribution of the current \<open>x\<close> subtracted by \<^verbatim>\<open>bgs_apply\<close> with
  factors \<open>-1\<close> and \<open>1\<close>, whatever the residual vector held before: the sweep counter of
  the loop is never negative, and the residual vector keeps the shape of \<open>b\<close> it is built
  with. The subtraction changes block \<open>i\<close> only: it becomes \<open>b_i\<close> minus the sum over the
  columns of \<open>A[i][col] * x[col]\<close>.
\<close>

theorem Apply_residuals:
  assumes "IsSetup this" and "A' this = Some (BlockedCrs bA)"
  shows "Apply this X B z =
           andThen (prepare bA X B)
             (\<lambda>p. andThen
                     (gs_sweeps
                        (\<lambda>run i x r. if z \<and> i = 0 \<and> run = 0 then Inr (rcpB p)
                                      else bgs_apply bA x (rcpB p) i (- 1) 1)
                        (block_update this (Damping_factor this))
                        (length (Inverse' this)) (Sweeps this)
                        (if z then putScalar 0 (rcpX p) else rcpX p, Build (rcpB p)))
                     (\<lambda>(x, r). finish bA p x X))
       \<and> (\<forall>x b i. bgs_apply bA x b i (- 1) 1
             = (case row_contribution bA x i of
                  Inl e \<Rightarrow> Inl e
                | Inr P \<Rightarrow>
                    if NumMaps (getRangeMapExtractor bA) = length b \<and> i < length b \<and>
                       length P = length (b ! i)
                    then Inr (b[i := map2 (\<lambda>p bi. bi - p) P (b ! i)])
                    else Inl IncompatibleMaps))"
proof -
  show ?thesis
    using Apply_explicit_residual [OF assms, of X B z] bgs_apply_subtracts [of bA] by simp
qed

theorem Apply_residuals_witness:
  "Apply ex_setup ex_X ex_B True = Inr (MultiVector [1, 7, 2])
   \<and> bgs_apply ex_bA ex_xs ex_bs 1 (- 1) 1 = Inr [[1, 2], [- 8]]"
proof -
  have s: "IsSetup ex_setup" "A' ex_setup = Some (BlockedCrs ex_bA)"
    by (simp_all add: ex_setup_eq)
  note t = Apply_residuals [OF s, of ex_X ex_B True]
  have e: "andThen (prepare ex_bA ex_X ex_B)
             (\<lambda>p. andThen
                     (gs_sweeps
                        (\<lambda>run i x r. if True \<and> i = 0 \<and> run = 0 then Inr (rcpB p)
                                      else bgs_apply ex_bA x (rcpB p) i (- 1) 1)
                        (block_update ex_setup (Damping_factor ex_setup))
                        (length (Inverse' ex_setup)) (Sweeps ex_setup)
                        (if True then putScalar 0 (rcpX p) else rcpX p, Build (rcpB p)))
                     (\<lambda>(x, r). finish ex_bA p x ex_X))
           = Inr (MultiVector [1, 7, 2])"
    by code_simp
  have A: "Apply ex_setup ex_X ex_B True = Inr (MultiVector [1, 7, 2])"
    using t [THEN conjunct1] e by simp
  have c1: "row_contribution ex_bA ex_xs 1 = Inr [18]"
    by code_simp
  have n: "NumMaps (getRangeMapExtractor ex_bA) = length ex_bs"
    by (simp add: NumMaps_def ex_bA_def ex_map_def ex_bs_def)
  have b: "ex_bs = [[1, 2], [10]]"
    by (simp add: ex_bs_def)
  have g: "bgs_apply ex_bA ex_xs ex_bs 1 (- 1) 1 = Inr [[1, 2], [- 8]]"
    using t [THEN conjunct2, rule_format, of ex_xs ex_bs 1] c1 n by (simp add: b)
  show ?thesis
    by (intro conjI A g)
qed

section \<open>The call of the sub-smoother\<close>

text \<open>
  Claim C4, as amended. On a smoother bound to the operator by one \<^verbatim>\<open>Setup\<close>, with
  working vectors of the block sizes of the operator, the run of \<^verbatim>\<open>Apply\<close> is the scheme
  of sweeps and block rows in which every round invokes the sub-smoother of row \<open>i\<close> on a
  zero vector on the map of domain block \<open>i\<close>, on block \<open>i\<close> of the residual of the round,
  and with the third argument \<^verbatim>\<open>false\<close>; block \<open>i\<close> of the solution becomes
  \<open>x_i + \<omega> \<Delta>x_i\<close> and no other block changes.
\<close>

theorem Apply_sub_smoother_calls:
  assumes b: "bound_to this bA" and p: "prepare bA X B = Inr p" and c: "conforming bA p"
  shows "Apply this X B z =
           andThen
             (gs_sweeps (block_residual bA (rcpB p) z)
                (\<lambda>i x r.
                   let dx = (Inverse' this ! i)
                              (replicate (length (maps (getDomainMapExtractor bA) ! i)) 0)
                              (r ! i) False
                   in if length dx = length (x ! i)
                      then Inr (x[i := map2 (\<lambda>d xi. Damping_factor this * d + xi) dx (x ! i)])
                      else Inl IncompatibleMaps)
                (length (Inverse' this)) (Sweeps this)
                (if z then putScalar 0 (rcpX p) else rcpX p, Build (rcpB p)))
             (\<lambda>(x, r). finish bA p x X)"
proof -
  let ?dme = "getDomainMapExtractor bA"
  let ?rme = "getRangeMapExtractor bA"
  let ?upd = "\<lambda>i x r.
                let dx = (Inverse' this ! i) (replicate (length (maps ?dme ! i)) 0) (r ! i) False
                in if length dx = length (x ! i)
                   then Inr (x[i := map2 (\<lambda>d xi. Damping_factor this * d + xi) dx (x ! i)])
                   else Inl IncompatibleMaps"
  let ?x0 = "if z then putScalar 0 (rcpX p) else rcpX p"
  have bound: "IsSetup this" "A' this = Some (BlockedCrs bA)"
    "domainMapExtractor' this = Some ?dme" "rangeMapExtractor' this = Some ?rme"
    "length (Inverse' this) = NumMaps ?rme" "length (Inverse' this) = NumMaps ?dme"
    using b by (simp_all add: bound_to_def)
  have lB: "length (rcpB p) = NumMaps ?rme" and lX: "length ?x0 = NumMaps ?dme"
    using c same_shape_length [of "rcpB p" "maps ?rme"] same_shape_length [of "rcpX p" "maps ?dme"]
    by (simp_all add: conforming_def NumMaps_def putScalar_def)
  have same: "gs_sweeps (block_residual bA (rcpB p) z) (block_update this (Damping_factor this))
                (length (Inverse' this)) (Sweeps this) (?x0, Build (rcpB p))
              = gs_sweeps (block_residual bA (rcpB p) z) ?upd
                (length (Inverse' this)) (Sweeps this) (?x0, Build (rcpB p))"
  proof (rule gs_sweeps_cong_inv [where P = "\<lambda>st. length (fst st) = NumMaps ?dme"])
    fix k :: nat and i and st :: "'a list list \<times> 'a list list"
    assume i: "i < length (Inverse' this)" and P: "length (fst st) = NumMaps ?dme"
    obtain x r where st: "st = (x, r)" by (cases st)
    have "block_update this (Damping_factor this) i x r' = ?upd i x r'"
      if "block_residual bA (rcpB p) z (int k) i x r = Inr r'" for r'
    proof -
      have "length r' = length (rcpB p)"
        using same_shape_length [OF block_residual_shape [OF that]] .
      then show ?thesis
        using block_update_eq [of this ?dme ?rme x r' i "Damping_factor this"] bound i P lB
        by (simp add: st)
    qed
    then show "gs_round (block_residual bA (rcpB p) z) (block_update this (Damping_factor this))
                 (int k) i st
               = gs_round (block_residual bA (rcpB p) z) ?upd (int k) i st"
      unfolding st gs_round_def prod.case
      by (intro andThen_cong_Inr) simp
  next
    fix k :: nat and i and st st' :: "'a list list \<times> 'a list list"
    assume P: "length (fst st) = NumMaps ?dme"
      and r: "gs_round (block_residual bA (rcpB p) z) (block_update this (Damping_factor this))
                (int k) i st = Inr st'"
    have "block_row this bA (rcpB p) z (Damping_factor this) (int k) i st = Inr st'"
      using r by (simp add: block_row_round)
    from block_row_frame [OF this] P show "length (fst st') = NumMaps ?dme" by simp
  next
    show "length (fst (?x0, Build (rcpB p))) = NumMaps ?dme" using lX by simp
  qed
  show ?thesis
    unfolding Apply_scheme [OF bound(1,2)] p andThen_Inr same ..
qed

theorem Apply_sub_smoother_calls_witness:
  "Apply ex_setup ex_X ex_B False = Inr (MultiVector [1, 7, 2])"
proof -
  let ?p = "\<lparr>mapX = ex_map, bX = ex_xs, rcpX = ex_xs, rcpB = ex_bs,
            bCopyResultX = True, viewX = False\<rparr> :: int prepared"
  have p: "prepare ex_bA ex_X ex_B = Inr ?p"
    by code_simp
  have c: "conforming ex_bA ?p"
    by (simp add: conforming_def ex_bA_def ex_map_def ex_xs_def ex_bs_def)
  note t = Apply_sub_smoother_calls [OF ex_bound p c, of False]
  have e: "andThen
             (gs_sweeps (block_residual ex_bA (rcpB ?p) False)
                (\<lambda>i x r.
                   let dx = (Inverse' ex_setup ! i)
                              (replicate (length (maps (getDomainMapExtractor ex_bA) ! i)) 0)
                              (r ! i) False
                   in if length dx = length (x ! i)
                      then Inr (x[i := map2 (\<lambda>d xi. Damping_factor ex_setup * d + xi) dx (x ! i)])
                      else Inl IncompatibleMaps)
                (length (Inverse' ex_setup)) (Sweeps ex_setup)
                (if False then putScalar 0 (rcpX ?p) else rcpX ?p, Build (rcpB ?p)))
             (\<lambda>(x, r). finish ex_bA ?p x ex_X)
           = Inr (MultiVector [1, 7, 2])"
    by code_simp
  show ?thesis
    using t e by simp
qed

text \<open>
  Claim C4 as stated fails in its last part: with a sub-smoother that returns the exact
  solve when told that the initial guess is zero and leaves its vector alone otherwise,
  the step of the code leaves block 0 as it is, the step of the spec (third argument
  \<^verbatim>\<open>true\<close>) changes it.
\<close>

theorem sub_smoother_flag_is_false:
  "block_update ex_flagged 1 0 ex_xs ex_bs = Inr [[5, 7], [6]]
   \<and> spec_block_update ex_flagged 1 0 ex_xs ex_bs = [[6, 9], [6]]
   \<and> block_update ex_flagged 1 0 ex_xs ex_bs \<noteq> Inr (spec_block_update ex_flagged 1 0 ex_xs ex_bs)"
  by code_simp

section \<open>No sweeps\<close>

text \<open>
  Claim C7. Let the smoother be set up on the blocked operator \<open>bA\<close>, with sweep count 0,
  and let the partition reconciliation of lines 160-228 succeed on \<open>X\<close> and \<open>B\<close>, with
  the invariants of the data model on the partition descriptor that wraps a flat \<open>X\<close>
  and on the Reordering Plan. Then \<^verbatim>\<open>Apply\<close> returns \<open>X\<close> unchanged, or set to zero when
  \<^verbatim>\<open>InitialGuessIsZero\<close> holds, whether \<open>X\<close> came blocked or flat: wrapping a flat vector
  and merging it back gives the vector back.
\<close>

theorem Apply_zero_sweeps:
  assumes "IsSetup this" and "A' this = Some (BlockedCrs bA)" and "Sweeps this = 0"
    and p: "prepare bA X B = Inr p"
    and "well_partitioned bA X" and "plan_covers bA p"
  shows "Apply this X B z = Inr (if z then zeroed X else X)"
  using assms
  by (simp add: Apply_no_sweeps finish_same [OF p] finish_zero [OF p])

theorem Apply_zero_sweeps_witness:
  "Apply (ex_reordered\<lparr>Sweeps := 0\<rparr>) ex_X ex_B True = Inr (MultiVector [0, 0, 0])
   \<and> Apply (ex_reordered\<lparr>Sweeps := 0\<rparr>) ex_X ex_B False = Inr ex_X
   \<and> Apply (ex_setup\<lparr>Sweeps := 0\<rparr>) (BlockedMultiVector ex_map ex_xs) ex_B True
       = Inr (BlockedMultiVector ex_map [[0, 0], [0]])"
proof -
  let ?p = "\<lparr>mapX = ex_native, bX = [[5], [6], [7]], rcpX = [[5, 7], [6]], rcpB = [[1, 2], [10]],
            bCopyResultX = True, viewX = True\<rparr> :: int prepared"
  let ?q = "\<lparr>mapX = ex_map, bX = ex_xs, rcpX = ex_xs, rcpB = [[1, 2], [10]],
            bCopyResultX = False, viewX = False\<rparr> :: int prepared"
  have s: "IsSetup (ex_reordered\<lparr>Sweeps := 0\<rparr>)"
    "A' (ex_reordered\<lparr>Sweeps := 0\<rparr>) = Some (BlockedCrs ex_rbA)"
    "Sweeps (ex_reordered\<lparr>Sweeps := 0\<rparr>) = 0"
    by (simp_all add: ex_reordered_def ex_setup_eq)
  have s': "IsSetup (ex_setup\<lparr>Sweeps := 0\<rparr>)"
    "A' (ex_setup\<lparr>Sweeps := 0\<rparr>) = Some (BlockedCrs ex_bA)"
    "Sweeps (ex_setup\<lparr>Sweeps := 0\<rparr>) = 0"
    by (simp_all add: ex_setup_eq)
  have p: "prepare ex_rbA ex_X ex_B = Inr ?p"
    by code_simp
  have q: "prepare ex_bA (BlockedMultiVector ex_map ex_xs) ex_B = Inr ?q"
    by code_simp
  have w: "well_partitioned ex_rbA ex_X"
    by (auto simp: well_partitioned_def ex_X_def ex_rbA_def ex_native_def)
  have w': "well_partitioned ex_bA (BlockedMultiVector ex_map ex_xs)"
    by (simp add: well_partitioned_def)
  have c: "plan_covers ex_rbA ?p"
    by (auto simp: plan_covers_def ex_rbA_def)
  have c': "plan_covers ex_bA ?q"
    by (simp add: plan_covers_def ex_bA_def)
  show ?thesis
    using Apply_zero_sweeps [OF s p w c, of True] Apply_zero_sweeps [OF s p w c, of False]
      Apply_zero_sweeps [OF s' q w' c', of True]
    by (simp add: zeroed_def ex_X_def putScalar_def ex_xs_def)
qed

text \<open>
  Claim C10. With a negative sweep count the sweep loop does not run its body, and
  \<^verbatim>\<open>Apply\<close> returns what it returns with sweep count 0: on a set-up smoother, the
  partition reconciliation, the reset of \<open>X\<close> when \<^verbatim>\<open>InitialGuessIsZero\<close> holds, and the
  copy-back of lines 270-273.
\<close>

theorem Apply_negative_sweeps:
  assumes "Sweeps this < 0"
  shows "Apply this X B z = Apply (this\<lparr>Sweeps := 0\<rparr>) X B z
       \<and> sweeps this bA bs z omega (Sweeps this) st = Inr st
       \<and> (IsSetup this \<longrightarrow> A' this = Some (BlockedCrs bA) \<longrightarrow>
            Apply this X B z =
              andThen (prepare bA X B)
                (\<lambda>p. finish bA p (if z then putScalar 0 (rcpX p) else rcpX p) X))"
  using assms by (simp add: Apply_no_sweeps sweeps_none)

theorem Apply_negative_sweeps_witness:
  "(- 3 :: int) < 0
   \<and> Apply (ex_setup\<lparr>Sweeps := - 3\<rparr>) ex_X ex_B True = Inr (MultiVector [0, 0, 0])
   \<and> Apply (ex_setup\<lparr>Sweeps := - 3\<rparr>) ex_X ex_B False = Inr ex_X"
proof -
  have n: "Sweeps (ex_setup\<lparr>Sweeps := - 3\<rparr>) < 0" by simp
  have z1: "Apply (ex_setup\<lparr>Sweeps := 0\<rparr>) ex_X ex_B True = Inr (MultiVector [0, 0, 0])"
    by code_simp
  have z2: "Apply (ex_setup\<lparr>Sweeps := 0\<rparr>) ex_X ex_B False = Inr ex_X"
    by code_simp
  show ?thesis
    using Apply_negative_sweeps [OF n, of ex_X ex_B True]
      Apply_negative_sweeps [OF n, of ex_X ex_B False]
    by (simp add: z1 z2)
qed

section \<open>Damping factor 0\<close>

text \<open>
  Claim C8, as amended. Let the smoother be bound to \<open>bA\<close> by one \<^verbatim>\<open>Setup\<close>, with damping
  factor 0 and any sweep count, let the collaborators keep to their interfaces and the
  working vectors have the block sizes of the operator. Then \<^verbatim>\<open>Apply\<close> does not throw and
  returns \<open>X\<close> unchanged when \<^verbatim>\<open>InitialGuessIsZero\<close> is false, and \<open>X\<close> set to zero when
  it is true: every damped update adds zero, and the reset of line 242 is all that
  changes \<open>X\<close>.
\<close>

theorem Apply_zero_damping:
  assumes b: "bound_to this bA" and k: "in_place this bA" and wf: "maps_into_range bA"
    and omega: "Damping_factor this = 0"
    and p: "prepare bA X B = Inr p" and c: "conforming bA p"
    and wp: "well_partitioned bA X" and cover: "plan_covers bA p"
  shows "Apply this X B z = Inr (if z then zeroed X else X)"
proof -
  have B: "map length (rcpB p) = map length (maps (getRangeMapExtractor bA))"
    and R: "map length (Build (rcpB p)) = map length (maps (getRangeMapExtractor bA))"
    and X: "map length (rcpX p) = map length (maps (getDomainMapExtractor bA))"
    and X0: "map length (putScalar 0 (rcpX p)) = map length (maps (getDomainMapExtractor bA))"
    using c by (simp_all add: conforming_def)
  have bound: "IsSetup this = True" "A' this = Some (BlockedCrs bA)"
    using b by (simp_all add: bound_to_def)
  show ?thesis
  proof (cases z)
    case True
    obtain residual' where s:
      "sweeps this bA (rcpB p) True 0 (Sweeps this) (putScalar 0 (rcpX p), Build (rcpB p))
         = Inr (putScalar 0 (rcpX p), residual')"
      using sweeps_zero_damping [OF b k wf B X0 R] by blast
    show ?thesis
      by (simp add: Apply_def bound Let_def p omega True s finish_zero [OF p cover])
  next
    case False
    obtain residual' where s:
      "sweeps this bA (rcpB p) False 0 (Sweeps this) (rcpX p, Build (rcpB p))
         = Inr (rcpX p, residual')"
      using sweeps_zero_damping [OF b k wf B X R] by blast
    show ?thesis
      by (simp add: Apply_def bound Let_def p omega False s finish_same [OF p wp])
  qed
qed

theorem Apply_zero_damping_witness:
  "Apply (ex_undamped\<lparr>Sweeps := 3\<rparr>) ex_X ex_B False = Inr ex_X
   \<and> Apply (ex_undamped\<lparr>Sweeps := 3\<rparr>) ex_X ex_B True = Inr (MultiVector [0, 0, 0])"
proof -
  let ?s = "ex_undamped\<lparr>Sweeps := 3\<rparr>"
  let ?p = "\<lparr>mapX = ex_map, bX = ex_xs, rcpX = ex_xs, rcpB = ex_bs,
            bCopyResultX = True, viewX = False\<rparr> :: int prepared"
  have b: "bound_to ?s ex_bA"
    using ex_bound by (simp add: bound_to_def ex_undamped_def)
  have k: "in_place ?s ex_bA"
    using ex_in_place by (simp add: in_place_def ex_undamped_def)
  have o: "Damping_factor ?s = 0"
    by (simp add: ex_undamped_def)
  have p: "prepare ex_bA ex_X ex_B = Inr ?p"
    by code_simp
  have c: "conforming ex_bA ?p"
    by (simp add: conforming_def ex_bA_def ex_map_def ex_xs_def ex_bs_def)
  have w: "well_partitioned ex_bA ex_X"
    by (auto simp: well_partitioned_def ex_X_def ex_bA_def ex_map_def)
  have v: "plan_covers ex_bA ?p"
    by (simp add: plan_covers_def ex_bA_def)
  show ?thesis
    using Apply_zero_damping [OF b k ex_maps_into_range o p c w v, of False]
      Apply_zero_damping [OF b k ex_maps_into_range o p c w v, of True]
    by (simp add: zeroed_def ex_X_def)
qed

text \<open>
  Claim C8 as stated fails when \<^verbatim>\<open>InitialGuessIsZero\<close> is true: with damping factor 0
  the solution vector \<open>[5, 6, 7]\<close> comes back as \<open>[0, 0, 0]\<close>.
\<close>

theorem zero_damping_resets_x:
  "Damping_factor ex_undamped = 0
   \<and> Apply ex_undamped ex_X ex_B True = Inr (MultiVector [0, 0, 0])
   \<and> Apply ex_undamped ex_X ex_B True \<noteq> Inr ex_X"
  by code_simp

end
